theory Spec2Isabelle
  imports Complex_Main "HOL-Library.Sublist"
begin

section \<open>Data model\<close>

text \<open>
  The notebooks hold their catalogs in numpy arrays of float64. A float is modelled by the
  real number it denotes: comparison and equality of finite floats are exact, so they are
  the comparison and equality of reals. NaN and infinities are outside the model.

  In the construction of the two dictionaries, arithmetic on floats only makes lookup keys
  (\<open>np.round(z, 3)\<close>, \<open>np.round(z + 0.001, 3)\<close>, \<open>np.round(z - 0.001, 3)\<close>); there a
  decimal literal stands for the double nearest to it and the arithmetic is exact real
  arithmetic. In \<open>LOS_distance_diff\<close> the value returned is the result of float
  arithmetic; there the float operations are arguments of the model (see its section).

  The model starts from the arrays in memory: a catalog is a two-dimensional array, a
  list of rows, as \<open>np.loadtxt\<close> returns it for a file of two rows or more. Reading the
  files, and what \<open>np.loadtxt\<close> returns for a file of a single row, are outside the model.

  A row of an array is a record with one field per column the code reads, named by the
  column index: \<open>HSC_cl_cat[i, 0]\<close> is \<open>cl_col0 (HSC_cl_cat ! i)\<close>. The cluster IDs
  (\<open>HSC_cl_cat_IDs\<close>, column 6 of the same file, read as strings) are the field
  \<open>cl_col6\<close> of the same row, so the two arrays have the same length by construction.
\<close>

datatype py_error = KeyError

record cluster_row =
  cl_col0 :: real
  cl_col1 :: real
  cl_col2 :: real
  cl_col6 :: string

record member_row =
  mem_col0 :: real
  mem_col1 :: real
  mem_col3 :: real
  mem_col4 :: real
  mem_col5 :: real
  mem_col7 :: real

type_synonym props = "real \<times> real \<times> real"

text \<open>\<open>slice(a, b)\<close> with non-negative bounds and no step.\<close>

type_synonym slice = "nat \<times> nat"

text \<open>\<open>xs[slice(a, b)]\<close>: both bounds are clipped to the length, as Python and numpy do.\<close>

definition getslice :: "'a list \<Rightarrow> slice \<Rightarrow> 'a list" where
  "getslice xs s = drop (fst s) (take (snd s) xs)"

subsection \<open>numpy rounding\<close>

text \<open>
  \<open>np.rint\<close> rounds to the nearest integer, a tie to the even one; on a double it is
  exact. \<open>np.round(x, decimals)\<close> is \<open>rint(x * 10 ** decimals) / 10 ** decimals\<close>, and
  with no decimals it is \<open>rint(x)\<close>. The product and the quotient are exact here, while
  numpy rounds each of them to a double: the two agree unless the exact product lies within
  a float rounding error of a tie, as for the double written \<open>0.5015\<close>, which numpy rounds
  to \<open>0.501\<close> and the exact decimal rounds to \<open>0.502\<close>.
\<close>

definition rint :: "real \<Rightarrow> real" where
  "rint x =
     (let f = \<lfloor>x\<rfloor>; d = x - of_int f
      in of_int (if d < 1 / 2 then f
                 else if 1 / 2 < d then f + 1
                 else if even f then f else f + 1))"

definition np_round :: "real \<Rightarrow> nat \<Rightarrow> real" where
  "np_round x decimals = rint (x * 10 ^ decimals) / 10 ^ decimals"

subsection \<open>Dictionaries\<close>

text \<open>
  \<open>dict(pairs)\<close> inserts the pairs from first to last, so a later pair with a key
  already present replaces the value stored for it. \<open>d[k]\<close> raises KeyError on a
  missing key; \<open>len(d)\<close> is \<open>card (dom d)\<close>.
\<close>

definition dict :: "('k \<times> 'v) list \<Rightarrow> ('k \<rightharpoonup> 'v)" where
  "dict kvs = foldl (\<lambda>m (k, v). m(k \<mapsto> v)) Map.empty kvs"

definition getitem :: "('k \<rightharpoonup> 'v) \<Rightarrow> 'k \<Rightarrow> py_error + 'v" where
  "getitem d k = (case d k of None \<Rightarrow> Inl KeyError | Some v \<Rightarrow> Inr v)"

section \<open>Create\_Cluster\_Member\_Lists: cluster properties to cluster ID\<close>

text \<open>
  \<^verbatim>\<open>
  list_props_ID = []
  for i in range(len(HSC_cl_cat)):
      RA = HSC_cl_cat[i, 0]
      dec = HSC_cl_cat[i, 1]
      z = np.round(HSC_cl_cat[i, 2], 3)
      ID = HSC_cl_cat_IDs[i]
      props = (RA, dec, z)
      list_props_ID.append((props, ID))
  dict_props_ID = dict(list_props_ID)
  \<close>
\<close>

fun list_props_ID :: "cluster_row list \<Rightarrow> (props \<times> string) list" where
  "list_props_ID [] = []"
| "list_props_ID (row # rows) =
     (let RA = cl_col0 row;
          dec = cl_col1 row;
          z = np_round (cl_col2 row) 3;
          ID = cl_col6 row;
          props = (RA, dec, z)
      in (props, ID) # list_props_ID rows)"

definition dict_props_ID :: "cluster_row list \<Rightarrow> (props \<rightharpoonup> string)" where
  "dict_props_ID HSC_cl_cat = dict (list_props_ID HSC_cl_cat)"

section \<open>Create\_Cluster\_Member\_Lists: cluster ID to slice of the member catalog\<close>

text \<open>
  The nested \<open>try\<close>/\<open>except\<close> that resolves the ID of a closed run: the key as stored,
  then with the redshift nudged up, then nudged down. A bare \<open>except\<close> catches the
  KeyError of the lookup before it; the KeyError of the third lookup is not caught.
  \<^verbatim>\<open>
  try:
      ID = dict_props_ID[props]
  except:
      try:
          props = (cluster_RA, cluster_dec, np.round(cluster_z+0.001,3))
          ID = dict_props_ID[props]
      except:
          props = (cluster_RA, cluster_dec, np.round(cluster_z-0.001,3))
          ID = dict_props_ID[props]
  \<close>
\<close>

definition resolve_ID :: "(props \<rightharpoonup> string) \<Rightarrow> real \<Rightarrow> real \<Rightarrow> real \<Rightarrow> py_error + string" where
  "resolve_ID dict_props_ID' cluster_RA cluster_dec cluster_z =
     (case getitem dict_props_ID' (cluster_RA, cluster_dec, cluster_z) of
        Inr ID \<Rightarrow> Inr ID
      | Inl _ \<Rightarrow>
          (case getitem dict_props_ID'
                  (cluster_RA, cluster_dec, np_round (cluster_z + 0.001) 3) of
             Inr ID \<Rightarrow> Inr ID
           | Inl _ \<Rightarrow>
               getitem dict_props_ID'
                 (cluster_RA, cluster_dec, np_round (cluster_z - 0.001) 3)))"

text \<open>
  The scan of the member catalog. The loop variable \<open>i\<close>, \<open>low_ind\<close> and the list
  \<open>list_ID_slice\<close> built so far are the state; \<open>continue\<close> is the recursive call that
  leaves \<open>low_ind\<close> and the list as they are. A KeyError raised by the third lookup ends
  the scan.
  \<^verbatim>\<open>
  for i in range(len(full_member_cat)):
      cluster_RA = full_member_cat[i, 0]
      cluster_dec = full_member_cat[i, 1]
      cluster_z = full_member_cat[i, 3]
      props = (cluster_RA, cluster_dec, cluster_z)
      if (i < (len(full_member_cat) - 1)):
          if (cluster_RA == full_member_cat[i+1, 0]) and (cluster_z == full_member_cat[i+1, 3]):
              continue
      ... ID = dict_props_ID[props], with the two retries ...
      high_ind = i + 1
      list_ID_slice.append((ID, slice(low_ind, high_ind)))
      low_ind = high_ind
  \<close>
  Inside the loop the catalog has at least one row, so \<open>len(full_member_cat) - 1\<close> is
  not negative and the subtraction on \<open>nat\<close> is the one of the source.
\<close>

function list_ID_slice_loop ::
  "(props \<rightharpoonup> string) \<Rightarrow> member_row list \<Rightarrow> nat \<Rightarrow> nat \<Rightarrow> (string \<times> slice) list
     \<Rightarrow> py_error + (string \<times> slice) list" where
  "list_ID_slice_loop dict_props_ID' full_member_cat i low_ind list_ID_slice' =
     (if i < length full_member_cat then
        (let cluster_RA = mem_col0 (full_member_cat ! i);
             cluster_dec = mem_col1 (full_member_cat ! i);
             cluster_z = mem_col3 (full_member_cat ! i)
         in if i < length full_member_cat - 1
               \<and> cluster_RA = mem_col0 (full_member_cat ! (i + 1))
               \<and> cluster_z = mem_col3 (full_member_cat ! (i + 1))
            then list_ID_slice_loop dict_props_ID' full_member_cat (i + 1) low_ind list_ID_slice'
            else
              (case resolve_ID dict_props_ID' cluster_RA cluster_dec cluster_z of
                 Inl e \<Rightarrow> Inl e
               | Inr ID \<Rightarrow>
                   (let high_ind = i + 1
                    in list_ID_slice_loop dict_props_ID' full_member_cat (i + 1) high_ind
                         (list_ID_slice' @ [(ID, (low_ind, high_ind))]))))
      else Inr list_ID_slice')"
  by pat_completeness auto
termination
  by (relation "measure (\<lambda>(d, cat, i, low_ind, acc). length cat - i)") auto

declare list_ID_slice_loop.simps [simp del]

definition list_ID_slice ::
  "(props \<rightharpoonup> string) \<Rightarrow> member_row list \<Rightarrow> py_error + (string \<times> slice) list" where
  "list_ID_slice dict_props_ID' full_member_cat =
     list_ID_slice_loop dict_props_ID' full_member_cat 0 0 []"

definition dict_ID_slice ::
  "(props \<rightharpoonup> string) \<Rightarrow> member_row list \<Rightarrow> py_error + (string \<rightharpoonup> slice)" where
  "dict_ID_slice dict_props_ID' full_member_cat =
     (case list_ID_slice dict_props_ID' full_member_cat of
        Inl e \<Rightarrow> Inl e
      | Inr list_ID_slice' \<Rightarrow> Inr (dict list_ID_slice'))"

section \<open>Create\_Cluster\_Member\_Lists: saving a member list\<close>

text \<open>
  The file system is a map from paths to the artifacts written. \<open>np.savetxt\<close> writes the
  rows of \<open>X\<close> under \<open>fname\<close>, with the delimiter and the header it is given; the
  directory of the path is taken to exist.
\<close>

record artifact =
  art_header :: string
  art_delimiter :: string
  art_rows :: "(real \<times> real) list"

type_synonym filesystem = "string \<rightharpoonup> artifact"

definition np_savetxt ::
  "string \<Rightarrow> (real \<times> real) list \<Rightarrow> string \<Rightarrow> string \<Rightarrow> filesystem \<Rightarrow> filesystem" where
  "np_savetxt fname X delimiter header fs =
     fs(fname \<mapsto> \<lparr>art_header = header, art_delimiter = delimiter, art_rows = X\<rparr>)"

text \<open>
  Python's \<open>str\<close> at the two literals of the function: \<open>str(0.1)\<close> is \<open>'0.1'\<close>, and
  \<open>prob_max = 1\<close> is an int, so \<open>str(1)\<close> is \<open>'1'\<close>.
\<close>

definition str_prob_min :: string where
  "str_prob_min = ''0.1''"

definition str_prob_max :: string where
  "str_prob_max = ''1''"

text \<open>
  \<^verbatim>\<open>
  def save_mem_list(ID):
      prob_min = 0.1
      prob_max = 1
      path = 'Miscentered_Clusters_blank/' + ID + '/' + \
              ID + '_P=' + str(prob_min) + 'to' + str(prob_max) + '.csv'
      member_slice = dict_ID_slice[ID]
      mem_list_no_cut = full_member_cat[member_slice]
      in_prob_range = (mem_list_no_cut[:,7] > prob_min) & (mem_list_no_cut[:,7] <= prob_max)
      mem_list = mem_list_no_cut[in_prob_range][:, 4:6]
      np.savetxt(fname=path, X=mem_list, delimiter=',', header='ra, dec')
  \<close>
  The globals \<open>dict_ID_slice\<close> and \<open>full_member_cat\<close> are arguments.

  \<open>mem_list\<close> is the part of the body from the lookup of the slice to the value of the
  variable \<open>mem_list\<close>, with the locals \<open>prob_min\<close> and \<open>prob_max\<close> it reads as
  arguments: the KeyError of the lookup, or the rows handed to \<open>np.savetxt\<close>.
  \<open>save_mem_list\<close> is the function: it fixes the two bounds, builds the path and writes
  the rows. Its result is what the call raised, if anything, and the file system it
  leaves.
\<close>

definition mem_list ::
  "real \<Rightarrow> real \<Rightarrow> (string \<rightharpoonup> slice) \<Rightarrow> member_row list \<Rightarrow> string
     \<Rightarrow> py_error + (real \<times> real) list" where
  "mem_list prob_min prob_max dict_ID_slice' full_member_cat ID =
     (case getitem dict_ID_slice' ID of
        Inl e \<Rightarrow> Inl e
      | Inr member_slice \<Rightarrow>
          (let mem_list_no_cut = getslice full_member_cat member_slice;
               in_prob_range = (\<lambda>row. mem_col7 row > prob_min \<and> mem_col7 row \<le> prob_max)
           in Inr (map (\<lambda>row. (mem_col4 row, mem_col5 row))
                     (filter in_prob_range mem_list_no_cut))))"

definition save_mem_list ::
  "(string \<rightharpoonup> slice) \<Rightarrow> member_row list \<Rightarrow> string \<Rightarrow> filesystem
     \<Rightarrow> (py_error + unit) \<times> filesystem" where
  "save_mem_list dict_ID_slice' full_member_cat ID fs =
     (let prob_min = 0.1;
          prob_max = 1;
          path = ''Miscentered_Clusters_blank/'' @ ID @ ''/'' @
                 ID @ ''_P='' @ str_prob_min @ ''to'' @ str_prob_max @ ''.csv''
      in case mem_list prob_min prob_max dict_ID_slice' full_member_cat ID of
           Inl e \<Rightarrow> (Inl e, fs)
         | Inr X \<Rightarrow> (Inr (), np_savetxt path X '','' ''ra, dec'' fs))"

section \<open>Physical separations: line-of-sight distance\<close>

text \<open>
  The cosmology object is the external collaborator; of it the function uses the method
  \<open>comoving_distance\<close> only.
  \<^verbatim>\<open>
  def LOS_distance_diff(cosmo, z1, z2):
      d2 = cosmo.comoving_distance(z2) / (1 + z1)
      d1 = cosmo.comoving_distance(z1) / (1 + z1)
      return np.round(d2 - d1)
  \<close>
  The function returns the result of float arithmetic, so the three float operations of
  its body are arguments of the model: \<open>fadd fa a b\<close> is the double that \<open>a + b\<close> gives,
  \<open>fsub fa a b\<close> the one that \<open>a - b\<close> gives and \<open>fdiv fa a b\<close> the one that \<open>a / b\<close> gives
  for a divisor other than zero, whenever these are finite. Nothing is assumed of them.
  \<open>exact_arith\<close> is the arithmetic without rounding error.

  A divisor \<open>1 + z1\<close> that is zero leaves no finite number to return (ZeroDivisionError on
  Python floats; \<open>inf\<close> or \<open>nan\<close>, with a warning, on numpy values): the model returns None.
  \<open>np.round\<close> with no decimals is \<open>np.rint\<close>, exact on doubles.
\<close>

record cosmology =
  comoving_distance :: "real \<Rightarrow> real"
  angular_diameter_distance :: "real \<Rightarrow> real"

record float_arith =
  fadd :: "real \<Rightarrow> real \<Rightarrow> real"
  fsub :: "real \<Rightarrow> real \<Rightarrow> real"
  fdiv :: "real \<Rightarrow> real \<Rightarrow> real"

definition exact_arith :: float_arith where
  "exact_arith = \<lparr>fadd = (+), fsub = (-), fdiv = (/)\<rparr>"

definition LOS_distance_diff :: "float_arith \<Rightarrow> cosmology \<Rightarrow> real \<Rightarrow> real \<Rightarrow> real option" where
  "LOS_distance_diff fa cosmo z1 z2 =
     (if fadd fa 1 z1 = 0 then None
      else
        (let d2 = fdiv fa (comoving_distance cosmo z2) (fadd fa 1 z1);
             d1 = fdiv fa (comoving_distance cosmo z1) (fadd fa 1 z1)
         in Some (np_round (fsub fa d2 d1) 0)))"

section \<open>Notions used in the statements\<close>

text \<open>
  Row \<open>j\<close> closes a run when the scan does not take the \<open>continue\<close> at \<open>i = j\<close>: it is
  the last row of the catalog, or the next row differs from it in column 0 or in column 3.
\<close>

definition closes_run :: "member_row list \<Rightarrow> nat \<Rightarrow> bool" where
  "closes_run cat j =
     (\<not> (j < length cat - 1
          \<and> mem_col0 (cat ! j) = mem_col0 (cat ! (j + 1))
          \<and> mem_col3 (cat ! j) = mem_col3 (cat ! (j + 1))))"

text \<open>The ID the scan resolves at a row: columns 0, 1 and 3 of that row go to the lookup.\<close>

definition resolve_row :: "(props \<rightharpoonup> string) \<Rightarrow> member_row \<Rightarrow> py_error + string" where
  "resolve_row d row = resolve_ID d (mem_col0 row) (mem_col1 row) (mem_col3 row)"

text \<open>
  A list of (ID, slice) pairs is contiguous from \<open>lo\<close> to \<open>hi\<close> when its first slice starts
  at \<open>lo\<close>, every slice is non-empty, each next slice starts where the one before it
  stops, and the last one stops at \<open>hi\<close>.
\<close>

text \<open>
  The difference \<open>d2 - d1\<close> of the two proper distances as the body of
  \<open>LOS_distance_diff\<close> computes it, before the rounding.
\<close>

definition computed_difference :: "float_arith \<Rightarrow> cosmology \<Rightarrow> real \<Rightarrow> real \<Rightarrow> real" where
  "computed_difference fa cosmo z1 z2 =
     fsub fa (fdiv fa (comoving_distance cosmo z2) (fadd fa 1 z1))
             (fdiv fa (comoving_distance cosmo z1) (fadd fa 1 z1))"

fun contiguous :: "nat \<Rightarrow> ('a \<times> slice) list \<Rightarrow> nat \<Rightarrow> bool" where
  "contiguous lo [] hi = (lo = hi)"
| "contiguous lo (e # rest) hi =
     (fst (snd e) = lo \<and> lo < snd (snd e) \<and> contiguous (snd (snd e)) rest hi)"

section \<open>Example catalogs\<close>

text \<open>
  Two clusters, whose redshifts round to 0.3 and to 0.513, and six member rows: four of the
  first cluster, with the probabilities 0.05, 0.1, 0.5 and 1, and two of the second, stored
  with the redshift 0.512, which the first retry resolves.
\<close>

definition ex_cl_cat :: "cluster_row list" where
  "ex_cl_cat =
     [\<lparr>cl_col0 = 30.5, cl_col1 = -1.25, cl_col2 = 0.3004, cl_col6 = ''W00048''\<rparr>,
      \<lparr>cl_col0 = 31, cl_col1 = 2, cl_col2 = 0.5126, cl_col6 = ''W00191''\<rparr>]"

definition ex_props_ID :: "props \<rightharpoonup> string" where
  "ex_props_ID = [(30.5, -1.25, 0.3) \<mapsto> ''W00048'', (31, 2, 0.513) \<mapsto> ''W00191'']"

definition ex_mem_cat :: "member_row list" where
  "ex_mem_cat =
     [\<lparr>mem_col0 = 30.5, mem_col1 = -1.25, mem_col3 = 0.3,
       mem_col4 = 30.51, mem_col5 = -1.24, mem_col7 = 0.05\<rparr>,
      \<lparr>mem_col0 = 30.5, mem_col1 = -1.25, mem_col3 = 0.3,
       mem_col4 = 30.52, mem_col5 = -1.26, mem_col7 = 0.1\<rparr>,
      \<lparr>mem_col0 = 30.5, mem_col1 = -1.25, mem_col3 = 0.3,
       mem_col4 = 30.49, mem_col5 = -1.25, mem_col7 = 0.5\<rparr>,
      \<lparr>mem_col0 = 30.5, mem_col1 = -1.25, mem_col3 = 0.3,
       mem_col4 = 30.5, mem_col5 = -1.27, mem_col7 = 1\<rparr>,
      \<lparr>mem_col0 = 31, mem_col1 = 2, mem_col3 = 0.512,
       mem_col4 = 31.01, mem_col5 = 2.01, mem_col7 = 0.9\<rparr>,
      \<lparr>mem_col0 = 31, mem_col1 = 2, mem_col3 = 0.512,
       mem_col4 = 30.99, mem_col5 = 1.99, mem_col7 = 0.3\<rparr>]"

definition ex_index :: "string \<rightharpoonup> slice" where
  "ex_index = [''W00048'' \<mapsto> (0, 4), ''W00191'' \<mapsto> (4, 6)]"

text \<open>
  One more row of the second cluster, stored with the redshift 0.514: a run of its own,
  which the second retry resolves to the same ID.
\<close>

definition ex_mem_cat_dup :: "member_row list" where
  "ex_mem_cat_dup = ex_mem_cat @
     [\<lparr>mem_col0 = 31, mem_col1 = 2, mem_col3 = 0.514,
       mem_col4 = 31.02, mem_col5 = 2.02, mem_col7 = 0.7\<rparr>]"

text \<open>
  Member rows of the second cluster stored with four decimals of redshift: two rows with
  0.5124, which the first retry rounds to 0.513, and one with 0.5138, which the first retry
  rounds to 0.515 and the second one to 0.513.
\<close>

definition ex_mem_cat_drift :: "member_row list" where
  "ex_mem_cat_drift =
     [\<lparr>mem_col0 = 31, mem_col1 = 2, mem_col3 = 0.5124,
       mem_col4 = 31.01, mem_col5 = 2.01, mem_col7 = 0.9\<rparr>,
      \<lparr>mem_col0 = 31, mem_col1 = 2, mem_col3 = 0.5124,
       mem_col4 = 30.99, mem_col5 = 1.99, mem_col7 = 0.3\<rparr>,
      \<lparr>mem_col0 = 31, mem_col1 = 2, mem_col3 = 0.5138,
       mem_col4 = 31.02, mem_col5 = 2.02, mem_col7 = 0.7\<rparr>]"

text \<open>The member rows of the first cluster alone: the second cluster has no member.\<close>

definition ex_mem_cat_one :: "member_row list" where
  "ex_mem_cat_one = take 4 ex_mem_cat"

text \<open>One more row that belongs to no cluster of the catalog.\<close>

definition ex_mem_cat_lost :: "member_row list" where
  "ex_mem_cat_lost = ex_mem_cat @
     [\<lparr>mem_col0 = 40, mem_col1 = 2, mem_col3 = 0.6,
       mem_col4 = 40.02, mem_col5 = 2.02, mem_col7 = 0.7\<rparr>]"

text \<open>A cluster whose two member rows carry different values in column 1.\<close>

definition ex_props_ID_dec :: "props \<rightharpoonup> string" where
  "ex_props_ID_dec = [(30.5, 7, 0.3) \<mapsto> ''W00577'']"

definition ex_mem_cat_dec :: "member_row list" where
  "ex_mem_cat_dec =
     [\<lparr>mem_col0 = 30.5, mem_col1 = -1.25, mem_col3 = 0.3,
       mem_col4 = 30.51, mem_col5 = -1.24, mem_col7 = 0.8\<rparr>,
      \<lparr>mem_col0 = 30.5, mem_col1 = 7, mem_col3 = 0.3,
       mem_col4 = 30.52, mem_col5 = 7.01, mem_col7 = 0.6\<rparr>]"

text \<open>Two clusters at the same position whose redshifts both round to 0.3.\<close>

definition ex_cl_cat_same_key :: "cluster_row list" where
  "ex_cl_cat_same_key =
     [\<lparr>cl_col0 = 30.5, cl_col1 = -1.25, cl_col2 = 0.3004, cl_col6 = ''W00048''\<rparr>,
      \<lparr>cl_col0 = 30.5, cl_col1 = -1.25, cl_col2 = 0.2996, cl_col6 = ''W00825''\<rparr>]"

text \<open>A cosmology whose comoving distance is 4000 Mpc per unit of redshift.\<close>

definition ex_cosmo :: cosmology where
  "ex_cosmo = \<lparr>comoving_distance = (\<lambda>z. 4000 * z),
               angular_diameter_distance = (\<lambda>z. 4000 * z / (1 + z))\<rparr>"

text \<open>
  A cosmology whose comoving distance is 10 per unit of redshift. At \<open>z1 = 0\<close> and \<open>z2\<close>
  one of 0.125, 0.25 and 0.75, every value in the body of \<open>LOS_distance_diff\<close> is a
  double and every operation on doubles is exact.
\<close>

definition ex_cosmo_dyadic :: cosmology where
  "ex_cosmo_dyadic = \<lparr>comoving_distance = (\<lambda>z. 10 * z),
                      angular_diameter_distance = (\<lambda>z. 10 * z / (1 + z))\<rparr>"

section \<open>The scan: auxiliary facts\<close>

lemma loop_done: "length cat \<le> i \<Longrightarrow> list_ID_slice_loop d cat i low acc = Inr acc"
  by (subst list_ID_slice_loop.simps) simp

lemma loop_step:
  "i < length cat \<Longrightarrow>
   list_ID_slice_loop d cat i low acc =
     (if \<not> closes_run cat i then list_ID_slice_loop d cat (Suc i) low acc
      else (case resolve_row d (cat ! i) of
              Inl e \<Rightarrow> Inl e
            | Inr ID \<Rightarrow> list_ID_slice_loop d cat (Suc i) (Suc i) (acc @ [(ID, (low, Suc i))])))"
  by (subst list_ID_slice_loop.simps) (simp add: closes_run_def resolve_row_def Let_def split: sum.splits)

lemma loop_acc:
  "list_ID_slice_loop d cat i low acc =
     (case list_ID_slice_loop d cat i low [] of
        Inl e \<Rightarrow> Inl e
      | Inr new \<Rightarrow> Inr (acc @ new))"
proof (induction "length cat - i" arbitrary: i low acc)
  case 0
  then show ?case by (simp add: loop_done)
next
  case (Suc n)
  then have lt: "i < length cat" and n: "n = length cat - Suc i" by auto
  note IH = Suc.hyps(1)[OF n]
  show ?case
  proof (cases "closes_run cat i")
    case False
    have "list_ID_slice_loop d cat i low acc = list_ID_slice_loop d cat (Suc i) low acc"
      using lt False by (simp add: loop_step)
    moreover have "list_ID_slice_loop d cat i low [] = list_ID_slice_loop d cat (Suc i) low []"
      using lt False by (simp add: loop_step)
    ultimately show ?thesis using IH[of low acc] by simp
  next
    case True
    show ?thesis
    proof (cases "resolve_row d (cat ! i)")
      case (Inl e)
      with True lt show ?thesis by (simp add: loop_step)
    next
      case (Inr ID)
      have l: "list_ID_slice_loop d cat i low acc =
               list_ID_slice_loop d cat (Suc i) (Suc i) (acc @ [(ID, (low, Suc i))])"
        using lt True Inr by (simp add: loop_step)
      have r: "list_ID_slice_loop d cat i low [] =
               list_ID_slice_loop d cat (Suc i) (Suc i) [(ID, (low, Suc i))]"
        using lt True Inr by (simp add: loop_step)
      show ?thesis
        unfolding l r
        by (subst IH[of "Suc i" "acc @ [(ID, (low, Suc i))]"],
            subst IH[of "Suc i" "[(ID, (low, Suc i))]"])
           (simp split: sum.splits)
    qed
  qed
qed

lemma loop_unfold:
  "i < length cat \<Longrightarrow>
   list_ID_slice_loop d cat i low [] =
     (if \<not> closes_run cat i then list_ID_slice_loop d cat (Suc i) low []
      else (case resolve_row d (cat ! i) of
              Inl e \<Rightarrow> Inl e
            | Inr ID \<Rightarrow>
               (case list_ID_slice_loop d cat (Suc i) (Suc i) [] of
                  Inl e \<Rightarrow> Inl e
                | Inr new \<Rightarrow> Inr ((ID, (low, Suc i)) # new))))"
proof -
  have "list_ID_slice_loop d cat (Suc i) (Suc i) [(ID, (low, Suc i))] =
        (case list_ID_slice_loop d cat (Suc i) (Suc i) [] of
           Inl e \<Rightarrow> Inl e
         | Inr new \<Rightarrow> Inr ((ID, (low, Suc i)) # new))" for ID
    by (subst loop_acc) (simp split: sum.splits)
  then show ?thesis if "i < length cat"
    using that by (simp add: loop_step split: sum.splits)
qed

lemma py_error_KeyError: "(e :: py_error) = KeyError"
  by (cases e) simp

lemma loop_contiguous:
  "list_ID_slice_loop d cat i low [] = Inr new \<Longrightarrow> low \<le> i \<Longrightarrow>
   i < length cat \<or> low = length cat \<Longrightarrow> contiguous low new (length cat)"
proof (induction "length cat - i" arbitrary: i low new)
  case 0
  then show ?case by (simp add: loop_done)
next
  case (Suc n)
  then have lt: "i < length cat" and n: "n = length cat - Suc i" by auto
  note IH = Suc.hyps(1)[OF n]
  show ?case
  proof (cases "closes_run cat i")
    case False
    then have "Suc i < length cat" using lt by (auto simp: closes_run_def)
    moreover have "list_ID_slice_loop d cat (Suc i) low [] = Inr new"
      using Suc.prems(1) lt False by (simp add: loop_unfold)
    ultimately show ?thesis using IH[of low new] Suc.prems(2) by simp
  next
    case True
    with Suc.prems(1) lt obtain ID rest where
      new: "new = (ID, (low, Suc i)) # rest" and
      rest: "list_ID_slice_loop d cat (Suc i) (Suc i) [] = Inr rest"
      by (auto simp: loop_unfold split: sum.splits)
    have "Suc i < length cat \<or> Suc i = length cat" using lt by auto
    then have "contiguous (Suc i) rest (length cat)"
      by (rule IH[OF rest le_refl])
    with new Suc.prems(2) show ?thesis by simp
  qed
qed

lemma loop_ends:
  "list_ID_slice_loop d cat i low [] = Inr new \<Longrightarrow>
   map (\<lambda>e. snd (snd e)) new = map Suc (filter (closes_run cat) [i..<length cat])"
proof (induction "length cat - i" arbitrary: i low new)
  case 0
  then show ?case by (simp add: loop_done)
next
  case (Suc n)
  then have lt: "i < length cat" and n: "n = length cat - Suc i" by auto
  note IH = Suc.hyps(1)[OF n]
  show ?case
  proof (cases "closes_run cat i")
    case False
    then have "list_ID_slice_loop d cat (Suc i) low [] = Inr new"
      using Suc.prems(1) lt by (simp add: loop_unfold)
    from IH[OF this] False lt show ?thesis by (simp add: upt_conv_Cons)
  next
    case True
    with Suc.prems(1) lt obtain ID rest where
      new: "new = (ID, (low, Suc i)) # rest" and
      rest: "list_ID_slice_loop d cat (Suc i) (Suc i) [] = Inr rest"
      by (auto simp: loop_unfold split: sum.splits)
    from IH[OF rest] new True lt show ?thesis by (simp add: upt_conv_Cons)
  qed
qed

lemma loop_ids:
  "list_ID_slice_loop d cat i low [] = Inr new \<Longrightarrow>
   map (\<lambda>e. Inr (fst e)) new =
   map (\<lambda>j. resolve_row d (cat ! j)) (filter (closes_run cat) [i..<length cat])"
proof (induction "length cat - i" arbitrary: i low new)
  case 0
  then show ?case by (simp add: loop_done)
next
  case (Suc n)
  then have lt: "i < length cat" and n: "n = length cat - Suc i" by auto
  note IH = Suc.hyps(1)[OF n]
  show ?case
  proof (cases "closes_run cat i")
    case False
    then have "list_ID_slice_loop d cat (Suc i) low [] = Inr new"
      using Suc.prems(1) lt by (simp add: loop_unfold)
    from IH[OF this] False lt show ?thesis by (simp add: upt_conv_Cons)
  next
    case True
    with Suc.prems(1) lt obtain ID rest where
      new: "new = (ID, (low, Suc i)) # rest" and
      ID: "resolve_row d (cat ! i) = Inr ID" and
      rest: "list_ID_slice_loop d cat (Suc i) (Suc i) [] = Inr rest"
      by (auto simp: loop_unfold split: sum.splits)
    from IH[OF rest] new True lt ID show ?thesis by (simp add: upt_conv_Cons)
  qed
qed

lemma loop_fails:
  "(list_ID_slice_loop d cat i low [] = Inl KeyError) =
   (\<exists>j. i \<le> j \<and> j < length cat \<and> closes_run cat j \<and> resolve_row d (cat ! j) = Inl KeyError)"
proof (induction "length cat - i" arbitrary: i low)
  case 0
  then show ?case by (simp add: loop_done)
next
  case (Suc n)
  then have lt: "i < length cat" and n: "n = length cat - Suc i" by auto
  note IH = Suc.hyps(1)[OF n]
  have split: "(\<exists>j. i \<le> j \<and> P j) = (P i \<or> (\<exists>j. Suc i \<le> j \<and> P j))" for P
    by (metis Suc_leD le_refl not_less_eq_eq le_antisym)
  show ?case
  proof (cases "closes_run cat i")
    case False
    then show ?thesis using lt IH[of low] by (subst split) (simp add: loop_unfold)
  next
    case True
    show ?thesis
    proof (cases "resolve_row d (cat ! i)")
      case (Inl e)
      then have "resolve_row d (cat ! i) = Inl KeyError" by (simp add: py_error_KeyError[of e])
      with True lt show ?thesis by (subst split) (simp add: loop_unfold)
    next
      case (Inr ID)
      with True lt have "(list_ID_slice_loop d cat i low [] = Inl KeyError) =
          (list_ID_slice_loop d cat (Suc i) (Suc i) [] = Inl KeyError)"
        by (simp add: loop_unfold split: sum.splits)
      with True Inr IH[of "Suc i"] show ?thesis
        by (subst split) simp
    qed
  qed
qed

lemma contiguous_le: "contiguous lo xs hi \<Longrightarrow> lo \<le> hi"
proof (induction xs arbitrary: lo)
  case Nil
  then show ?case by simp
next
  case (Cons e rest)
  from Cons.prems have "lo < snd (snd e)" and "contiguous (snd (snd e)) rest hi" by simp_all
  with Cons.IH[of "snd (snd e)"] show ?case by simp
qed

lemma contiguous_nth:
  "contiguous lo xs hi \<Longrightarrow> k < length xs \<Longrightarrow>
   lo \<le> fst (snd (xs ! k)) \<and> fst (snd (xs ! k)) < snd (snd (xs ! k)) \<and> snd (snd (xs ! k)) \<le> hi"
proof (induction xs arbitrary: lo k)
  case Nil
  then show ?case by simp
next
  case (Cons e rest)
  show ?case
  proof (cases k)
    case 0
    with Cons.prems contiguous_le[of "snd (snd e)" rest hi] show ?thesis by simp
  next
    case (Suc k')
    with Cons.prems Cons.IH[of "snd (snd e)" k'] show ?thesis by auto
  qed
qed

lemma contiguous_ordered:
  "contiguous lo xs hi \<Longrightarrow> k < k' \<Longrightarrow> k' < length xs \<Longrightarrow>
   snd (snd (xs ! k)) \<le> fst (snd (xs ! k'))"
proof (induction xs arbitrary: lo k k')
  case Nil
  then show ?case by simp
next
  case (Cons e rest)
  from Cons.prems obtain m where k': "k' = Suc m" by (cases k') auto
  show ?case
  proof (cases k)
    case 0
    with Cons.prems k' contiguous_nth[of "snd (snd e)" rest hi m] show ?thesis by simp
  next
    case (Suc j)
    with Cons.prems k' Cons.IH[of "snd (snd e)" j m] show ?thesis by simp
  qed
qed

lemma contiguous_unique:
  assumes "contiguous lo xs hi" "k < length xs" "k' < length xs"
    and "fst (snd (xs ! k)) \<le> r" "r < snd (snd (xs ! k))"
    and "fst (snd (xs ! k')) \<le> r" "r < snd (snd (xs ! k'))"
  shows "k = k'"
proof (rule ccontr)
  assume "k \<noteq> k'"
  then consider "k < k'" | "k' < k" by linarith
  then show False
  proof cases
    case 1
    from contiguous_ordered[OF assms(1) 1 assms(3)] assms show False by simp
  next
    case 2
    from contiguous_ordered[OF assms(1) 2 assms(2)] assms show False by simp
  qed
qed

lemma contiguous_cover:
  "contiguous lo xs hi \<Longrightarrow> lo \<le> r \<Longrightarrow> r < hi \<Longrightarrow>
   \<exists>k<length xs. fst (snd (xs ! k)) \<le> r \<and> r < snd (snd (xs ! k))"
proof (induction xs arbitrary: lo)
  case Nil
  then show ?case by simp
next
  case (Cons e rest)
  show ?case
  proof (cases "r < snd (snd e)")
    case True
    with Cons.prems have "0 < length (e # rest) \<and> fst (snd ((e # rest) ! 0)) \<le> r
        \<and> r < snd (snd ((e # rest) ! 0))" by simp
    then show ?thesis by blast
  next
    case False
    with Cons.prems Cons.IH[of "snd (snd e)"] obtain k where
      "k < length rest" "fst (snd (rest ! k)) \<le> r" "r < snd (snd (rest ! k))" by auto
    then have "Suc k < length (e # rest) \<and> fst (snd ((e # rest) ! Suc k)) \<le> r
        \<and> r < snd (snd ((e # rest) ! Suc k))" by simp
    then show ?thesis by blast
  qed
qed

lemma contiguous_slices_eq:
  "contiguous lo xs hi \<Longrightarrow> contiguous lo ys hi' \<Longrightarrow>
   map (\<lambda>e. snd (snd e)) xs = map (\<lambda>e. snd (snd e)) ys \<Longrightarrow> map snd xs = map snd ys"
proof (induction xs arbitrary: lo ys)
  case Nil
  then show ?case by simp
next
  case (Cons e rest)
  then obtain e' rest' where ys: "ys = e' # rest'" by (cases ys) auto
  with Cons.prems have "snd e = snd e'" by (auto simp: prod_eq_iff)
  moreover have "map snd rest = map snd rest'"
    using Cons.prems ys by (intro Cons.IH[of "snd (snd e)" rest']) auto
  ultimately show ?case using ys by simp
qed

lemma dict_snoc: "dict (kvs @ [kv]) = (dict kvs)(fst kv \<mapsto> snd kv)"
  by (simp add: dict_def case_prod_unfold)

lemma dict_Nil: "dict [] = Map.empty"
  by (simp add: dict_def)

lemma dom_dict: "dom (dict kvs) = fst ` set kvs"
proof (induction kvs rule: rev_induct)
  case Nil
  show ?case by (simp add: dict_Nil)
next
  case (snoc kv kvs)
  have "dom (dict (kvs @ [kv])) = insert (fst kv) (dom (dict kvs))"
    unfolding dict_snoc by simp
  with snoc.IH show ?case by simp
qed

lemma dict_Some_iff:
  "(dict kvs k = Some v) =
   (\<exists>m<length kvs. kvs ! m = (k, v) \<and> (\<forall>n. m < n \<and> n < length kvs \<longrightarrow> fst (kvs ! n) \<noteq> k))"
proof (induction kvs rule: rev_induct)
  case Nil
  then show ?case by (simp add: dict_Nil)
next
  case (snoc kv kvs)
  show ?case
  proof (cases "fst kv = k")
    case True
    have "(snd kv = v) =
       (\<exists>m<length (kvs @ [kv]). (kvs @ [kv]) ! m = (k, v) \<and>
          (\<forall>n. m < n \<and> n < length (kvs @ [kv]) \<longrightarrow> fst ((kvs @ [kv]) ! n) \<noteq> k))"
      (is "?L = ?R")
    proof
      assume ?L
      with True have "(kvs @ [kv]) ! length kvs = (k, v)" by (auto simp: prod_eq_iff)
      then show ?R by (intro exI[of _ "length kvs"]) auto
    next
      assume ?R
      then obtain m where m: "m < length (kvs @ [kv])" "(kvs @ [kv]) ! m = (k, v)"
        "\<forall>n. m < n \<and> n < length (kvs @ [kv]) \<longrightarrow> fst ((kvs @ [kv]) ! n) \<noteq> k" by blast
      have "m = length kvs"
      proof (rule ccontr)
        assume "m \<noteq> length kvs"
        with m(1) have "m < length kvs" by simp
        moreover from m(3) have "m < length kvs \<and> length kvs < length (kvs @ [kv])
            \<longrightarrow> fst ((kvs @ [kv]) ! length kvs) \<noteq> k" by (rule spec)
        ultimately have "fst ((kvs @ [kv]) ! length kvs) \<noteq> k" by simp
        with True show False by simp
      qed
      with m(2) show ?L by simp
    qed
    with True show ?thesis by (simp add: dict_snoc)
  next
    case False
    have "(\<exists>m<length kvs. kvs ! m = (k, v) \<and> (\<forall>n. m < n \<and> n < length kvs \<longrightarrow> fst (kvs ! n) \<noteq> k)) =
       (\<exists>m<length (kvs @ [kv]). (kvs @ [kv]) ! m = (k, v) \<and>
          (\<forall>n. m < n \<and> n < length (kvs @ [kv]) \<longrightarrow> fst ((kvs @ [kv]) ! n) \<noteq> k))"
      (is "?L = ?R")
    proof
      assume ?L
      then obtain m where m: "m < length kvs" "kvs ! m = (k, v)"
        "\<forall>n. m < n \<and> n < length kvs \<longrightarrow> fst (kvs ! n) \<noteq> k" by blast
      have "\<forall>n. m < n \<and> n < length (kvs @ [kv]) \<longrightarrow> fst ((kvs @ [kv]) ! n) \<noteq> k"
        using m(3) False by (auto simp: nth_append)
      with m(1,2) show ?R by (intro exI[of _ m]) (simp add: nth_append)
    next
      assume ?R
      then obtain m where m: "m < length (kvs @ [kv])" "(kvs @ [kv]) ! m = (k, v)"
        "\<forall>n. m < n \<and> n < length (kvs @ [kv]) \<longrightarrow> fst ((kvs @ [kv]) ! n) \<noteq> k" by blast
      have lt: "m < length kvs"
      proof (rule ccontr)
        assume "\<not> m < length kvs"
        with m(1) have "m = length kvs" by simp
        with m(2) False show False by simp
      qed
      have "\<forall>n. m < n \<and> n < length kvs \<longrightarrow> fst (kvs ! n) \<noteq> k"
      proof (intro allI impI)
        fix n assume n: "m < n \<and> n < length kvs"
        with m(3) have "fst ((kvs @ [kv]) ! n) \<noteq> k" by simp
        with n show "fst (kvs ! n) \<noteq> k" by (simp add: nth_append)
      qed
      with lt m(2) show ?L by (intro exI[of _ m]) (simp add: nth_append)
    qed
    with False snoc.IH show ?thesis by (simp add: dict_snoc)
  qed
qed

lemma list_props_ID_map:
  "list_props_ID cl = map (\<lambda>row. ((cl_col0 row, cl_col1 row, np_round (cl_col2 row) 3), cl_col6 row)) cl"
  by (induction cl) (simp_all add: Let_def)

lemma getslice_nth:
  "getslice xs (lo, hi) = map ((!) xs) [lo..<min hi (length xs)]"
proof (rule nth_equalityI)
  show "length (getslice xs (lo, hi)) = length (map ((!) xs) [lo..<min hi (length xs)])"
    by (simp add: getslice_def min.commute)
next
  fix i assume "i < length (getslice xs (lo, hi))"
  then have i: "i < min hi (length xs) - lo" by (simp add: getslice_def min.commute)
  then have "lo \<le> length (take hi xs)" and "lo + i < min hi (length xs)" by auto
  then show "getslice xs (lo, hi) ! i = map ((!) xs) [lo..<min hi (length xs)] ! i"
    using i by (simp add: getslice_def)
qed

lemma resolve_ID_cases:
  "resolve_ID d ra dec z =
     (case d (ra, dec, z) of
        Some ID \<Rightarrow> Inr ID
      | None \<Rightarrow>
          (case d (ra, dec, np_round (z + 0.001) 3) of
             Some ID \<Rightarrow> Inr ID
           | None \<Rightarrow>
               (case d (ra, dec, np_round (z - 0.001) 3) of
                  Some ID \<Rightarrow> Inr ID
                | None \<Rightarrow> Inl KeyError)))"
  by (simp add: resolve_ID_def getitem_def split: option.splits)

lemma resolve_ID_ran: "resolve_ID d ra dec z = Inr ID \<Longrightarrow> ID \<in> ran d"
  by (auto simp: resolve_ID_cases ran_def split: option.splits)

lemma loop_ids_ran:
  assumes "list_ID_slice_loop d cat i low [] = Inr new"
  shows "fst ` set new \<subseteq> ran d"
proof
  fix ID assume "ID \<in> fst ` set new"
  then have "(Inr ID :: py_error + string) \<in> set (map (\<lambda>e. Inr (fst e)) new)" by auto
  then have "Inr ID \<in> set (map (\<lambda>j. resolve_row d (cat ! j)) (filter (closes_run cat) [i..<length cat]))"
    unfolding loop_ids[OF assms] .
  then obtain j where "resolve_row d (cat ! j) = Inr ID" by auto
  then show "ID \<in> ran d" by (auto simp: resolve_row_def dest: resolve_ID_ran)
qed

section \<open>The ranges of the index partition the member catalog\<close>

lemma contiguous_hd_last:
  "contiguous lo xs hi \<Longrightarrow> xs \<noteq> [] \<Longrightarrow> fst (snd (hd xs)) = lo \<and> snd (snd (last xs)) = hi"
proof (induction xs arbitrary: lo)
  case Nil
  then show ?case by simp
next
  case (Cons e rest)
  show ?case
  proof (cases rest)
    case Nil
    with Cons.prems show ?thesis by simp
  next
    case (Cons e' rest')
    with Cons.prems Cons.IH[of "snd (snd e)"] show ?thesis by simp
  qed
qed

lemma contiguous_adjacent:
  "contiguous lo xs hi \<Longrightarrow> Suc k < length xs \<Longrightarrow> fst (snd (xs ! Suc k)) = snd (snd (xs ! k))"
proof (induction xs arbitrary: lo k)
  case Nil
  then show ?case by simp
next
  case (Cons e rest)
  show ?case
  proof (cases k)
    case 0
    with Cons.prems show ?thesis by (cases rest) simp_all
  next
    case (Suc k')
    with Cons.prems Cons.IH[of "snd (snd e)" k'] show ?thesis by simp
  qed
qed

lemma list_ID_slice_contiguous:
  "list_ID_slice d cat = Inr lst \<Longrightarrow> contiguous 0 lst (length cat)"
  unfolding list_ID_slice_def by (rule loop_contiguous) auto

lemma ex_list_ID_slice:
  "list_ID_slice ex_props_ID ex_mem_cat = Inr [(''W00048'', (0, 4)), (''W00191'', (4, 6))]"
  by (simp add: list_ID_slice_def list_ID_slice_loop.simps ex_mem_cat_def ex_props_ID_def
      resolve_ID_def getitem_def np_round_def rint_def Let_def)

text \<open>
  Claim C1. When the scan of a member catalog of \<open>M\<close> rows completes, the half-open
  ranges it appended, in the order of appending, partition \<open>[0, M)\<close>: the list is empty
  only for the empty catalog; the first range starts at 0 and the last one stops at \<open>M\<close>;
  each next range starts where the one before it stops; every range is non-empty; and
  every row lies in exactly one range.
\<close>

theorem ranges_partition_member_catalog:
  assumes "list_ID_slice d cat = Inr lst"
  shows "(lst = []) = (cat = [])
    \<and> (lst \<noteq> [] \<longrightarrow> fst (snd (hd lst)) = 0 \<and> snd (snd (last lst)) = length cat)
    \<and> (\<forall>k. Suc k < length lst \<longrightarrow> fst (snd (lst ! Suc k)) = snd (snd (lst ! k)))
    \<and> (\<forall>k<length lst. fst (snd (lst ! k)) < snd (snd (lst ! k)))
    \<and> (\<forall>r<length cat. \<exists>!k. k < length lst \<and> fst (snd (lst ! k)) \<le> r \<and> r < snd (snd (lst ! k)))"
proof -
  note c = list_ID_slice_contiguous[OF assms]
  have 1: "(lst = []) = (cat = [])"
  proof
    assume "lst = []"
    with c show "cat = []" by simp
  next
    assume "cat = []"
    with c contiguous_nth[OF c, of 0] show "lst = []" by (cases lst) auto
  qed
  have 2: "lst \<noteq> [] \<longrightarrow> fst (snd (hd lst)) = 0 \<and> snd (snd (last lst)) = length cat"
    using contiguous_hd_last[OF c] by blast
  have 3: "\<forall>k. Suc k < length lst \<longrightarrow> fst (snd (lst ! Suc k)) = snd (snd (lst ! k))"
    using contiguous_adjacent[OF c] by blast
  have 4: "\<forall>k<length lst. fst (snd (lst ! k)) < snd (snd (lst ! k))"
    using contiguous_nth[OF c] by blast
  have 5: "\<forall>r<length cat. \<exists>!k. k < length lst \<and> fst (snd (lst ! k)) \<le> r \<and> r < snd (snd (lst ! k))"
  proof (intro allI impI)
    fix r assume "r < length cat"
    with contiguous_cover[OF c, of r] obtain k where
      k: "k < length lst \<and> fst (snd (lst ! k)) \<le> r \<and> r < snd (snd (lst ! k))" by auto
    show "\<exists>!k. k < length lst \<and> fst (snd (lst ! k)) \<le> r \<and> r < snd (snd (lst ! k))"
    proof (rule ex1I[of _ k])
      show "k < length lst \<and> fst (snd (lst ! k)) \<le> r \<and> r < snd (snd (lst ! k))" by (rule k)
    next
      fix k' assume "k' < length lst \<and> fst (snd (lst ! k')) \<le> r \<and> r < snd (snd (lst ! k'))"
      with k show "k' = k" using contiguous_unique[OF c, of k' k r] by blast
    qed
  qed
  from 1 2 3 4 5 show ?thesis by blast
qed

theorem ranges_partition_member_catalog_witness:
  "list_ID_slice ex_props_ID ex_mem_cat = Inr [(''W00048'', (0, 4)), (''W00191'', (4, 6))]
   \<and> length ex_mem_cat = 6
   \<and> fst (snd (hd [(''W00048'', (0::nat, 4::nat)), (''W00191'', (4, 6))])) = 0
   \<and> snd (snd (last [(''W00048'', (0::nat, 4::nat)), (''W00191'', (4, 6))])) = length ex_mem_cat"
  using ranges_partition_member_catalog[OF ex_list_ID_slice] ex_list_ID_slice
  by (simp add: ex_mem_cat_def)

section \<open>Resolution of the cluster ID of a run\<close>

lemma ex_list_ID_slice_dup:
  "list_ID_slice ex_props_ID ex_mem_cat_dup =
     Inr [(''W00048'', (0, 4)), (''W00191'', (4, 6)), (''W00191'', (6, 7))]"
  by (simp add: list_ID_slice_def list_ID_slice_loop.simps ex_mem_cat_dup_def ex_mem_cat_def
      ex_props_ID_def resolve_ID_def getitem_def np_round_def rint_def Let_def)

lemma ex_list_ID_slice_lost:
  "list_ID_slice ex_props_ID ex_mem_cat_lost = Inl KeyError"
  by (simp add: list_ID_slice_def list_ID_slice_loop.simps ex_mem_cat_lost_def ex_mem_cat_def
      ex_props_ID_def resolve_ID_def getitem_def np_round_def rint_def Let_def)

lemma ex_list_ID_slice_drift:
  "list_ID_slice ex_props_ID ex_mem_cat_drift = Inr [(''W00191'', (0, 2)), (''W00191'', (2, 3))]"
  by (simp add: list_ID_slice_def list_ID_slice_loop.simps ex_mem_cat_drift_def
      ex_props_ID_def resolve_ID_def getitem_def np_round_def rint_def Let_def)

lemma dict_ID_slice_fails:
  "(dict_ID_slice d cat = Inl KeyError) = (list_ID_slice d cat = Inl KeyError)"
  by (simp add: dict_ID_slice_def split: sum.splits)

lemma list_ID_slice_entries:
  assumes "list_ID_slice d cat = Inr lst"
  shows "map (\<lambda>e. (Inr (fst e), snd (snd e))) lst =
         map (\<lambda>j. (resolve_row d (cat ! j), Suc j)) (filter (closes_run cat) [0..<length cat])"
proof -
  from assms have l: "list_ID_slice_loop d cat 0 0 [] = Inr lst" by (simp add: list_ID_slice_def)
  have "map (\<lambda>e. (Inr (fst e), snd (snd e))) lst
      = zip (map (\<lambda>e. Inr (fst e)) lst) (map (\<lambda>e. snd (snd e)) lst)"
    by (simp add: zip_map_map zip_same_conv_map)
  also have "\<dots> = zip (map (\<lambda>j. resolve_row d (cat ! j)) (filter (closes_run cat) [0..<length cat]))
                     (map Suc (filter (closes_run cat) [0..<length cat]))"
    by (simp only: loop_ids[OF l] loop_ends[OF l])
  also have "\<dots> = map (\<lambda>j. (resolve_row d (cat ! j), Suc j)) (filter (closes_run cat) [0..<length cat])"
    by (simp add: zip_map_map zip_same_conv_map)
  finally show ?thesis .
qed

text \<open>
  Claim C2. The ID of a closed run is looked up under the key (column 0, column 1,
  column 3) of the row that closes it; on a miss the lookup is retried with the redshift
  plus 0.001 rounded to 3 decimals, and on a second miss with the redshift minus 0.001
  rounded to 3 decimals; a third miss is a KeyError. The construction of the index ends
  in that KeyError exactly when some closing row misses all three lookups; when it
  completes, the list holds one entry for every closing row, in order, none dropped, with
  the ID resolved at that row. (The examples after the theorem include redshifts stored
  with four decimals, where the rounding of a retried key changes it: 0.5124 + 0.001 is
  looked up as 0.513.)
\<close>

theorem key_resolution_retries_then_fails:
  "resolve_ID d ra dec z =
     (case d (ra, dec, z) of
        Some ID \<Rightarrow> Inr ID
      | None \<Rightarrow>
          (case d (ra, dec, np_round (z + 0.001) 3) of
             Some ID \<Rightarrow> Inr ID
           | None \<Rightarrow>
               (case d (ra, dec, np_round (z - 0.001) 3) of
                  Some ID \<Rightarrow> Inr ID
                | None \<Rightarrow> Inl KeyError)))
   \<and> ((dict_ID_slice d cat = Inl KeyError) =
        (\<exists>j<length cat. closes_run cat j \<and> resolve_row d (cat ! j) = Inl KeyError))
   \<and> (list_ID_slice d cat = Inr lst \<longrightarrow>
        map (\<lambda>e. (Inr (fst e), snd (snd e))) lst =
        map (\<lambda>j. (resolve_row d (cat ! j), Suc j)) (filter (closes_run cat) [0..<length cat]))"
proof (intro conjI impI)
  show "resolve_ID d ra dec z =
     (case d (ra, dec, z) of
        Some ID \<Rightarrow> Inr ID
      | None \<Rightarrow>
          (case d (ra, dec, np_round (z + 0.001) 3) of
             Some ID \<Rightarrow> Inr ID
           | None \<Rightarrow>
               (case d (ra, dec, np_round (z - 0.001) 3) of
                  Some ID \<Rightarrow> Inr ID
                | None \<Rightarrow> Inl KeyError)))"
    by (rule resolve_ID_cases)
next
  show "(dict_ID_slice d cat = Inl KeyError) =
        (\<exists>j<length cat. closes_run cat j \<and> resolve_row d (cat ! j) = Inl KeyError)"
    using loop_fails[of d cat 0 0] by (simp add: dict_ID_slice_fails list_ID_slice_def)
next
  assume "list_ID_slice d cat = Inr lst"
  then show "map (\<lambda>e. (Inr (fst e), snd (snd e))) lst =
        map (\<lambda>j. (resolve_row d (cat ! j), Suc j)) (filter (closes_run cat) [0..<length cat])"
    by (rule list_ID_slice_entries)
qed

theorem key_resolution_retries_then_fails_witness:
  "list_ID_slice ex_props_ID ex_mem_cat_dup =
     Inr [(''W00048'', (0, 4)), (''W00191'', (4, 6)), (''W00191'', (6, 7))]
   \<and> map (\<lambda>j. (resolve_row ex_props_ID (ex_mem_cat_dup ! j), Suc j))
         (filter (closes_run ex_mem_cat_dup) [0..<length ex_mem_cat_dup]) =
      [(Inr ''W00048'', 4), (Inr ''W00191'', 6), (Inr ''W00191'', 7)]
   \<and> resolve_ID ex_props_ID 31 2 0.512 = Inr ''W00191''
   \<and> resolve_ID ex_props_ID 31 2 0.514 = Inr ''W00191''
   \<and> resolve_ID ex_props_ID 40 2 0.6 = Inl KeyError
   \<and> dict_ID_slice ex_props_ID ex_mem_cat_lost = Inl KeyError
   \<and> ex_props_ID (31, 2, 0.5124) = None
   \<and> ex_props_ID (31, 2, 0.5124 + 0.001) = None
   \<and> np_round (0.5124 + 0.001) 3 = 0.513
   \<and> resolve_ID ex_props_ID 31 2 0.5124 = Inr ''W00191''
   \<and> ex_props_ID (31, 2, 0.5138) = None
   \<and> np_round (0.5138 + 0.001) 3 = 0.515
   \<and> ex_props_ID (31, 2, 0.515) = None
   \<and> ex_props_ID (31, 2, 0.5138 - 0.001) = None
   \<and> np_round (0.5138 - 0.001) 3 = 0.513
   \<and> resolve_ID ex_props_ID 31 2 0.5138 = Inr ''W00191''
   \<and> np_round (0.5496 + 0.001) 3 = 0.551
   \<and> np_round (0.5496 - 0.001) 3 = 0.549
   \<and> resolve_ID ex_props_ID 31 2 0.5496 = Inl KeyError
   \<and> list_ID_slice ex_props_ID ex_mem_cat_drift =
       Inr [(''W00191'', (0, 2)), (''W00191'', (2, 3))]
   \<and> map (\<lambda>j. (resolve_row ex_props_ID (ex_mem_cat_drift ! j), Suc j))
         (filter (closes_run ex_mem_cat_drift) [0..<length ex_mem_cat_drift]) =
      [(Inr ''W00191'', 2), (Inr ''W00191'', 3)]"
proof -
  note inst = key_resolution_retries_then_fails[of ex_props_ID _ _ _ ex_mem_cat_dup
      "[(''W00048'', (0, 4)), (''W00191'', (4, 6)), (''W00191'', (6, 7))]"]
  from inst[of 0 0 0] ex_list_ID_slice_dup
  have 1: "map (\<lambda>j. (resolve_row ex_props_ID (ex_mem_cat_dup ! j), Suc j))
         (filter (closes_run ex_mem_cat_dup) [0..<length ex_mem_cat_dup]) =
      [(Inr ''W00048'', 4), (Inr ''W00191'', 6), (Inr ''W00191'', 7)]"
    by simp
  have 2: "resolve_ID ex_props_ID 31 2 0.512 = Inr ''W00191''"
    "resolve_ID ex_props_ID 31 2 0.514 = Inr ''W00191''"
    "resolve_ID ex_props_ID 40 2 0.6 = Inl KeyError"
    by (simp_all add: resolve_ID_def getitem_def ex_props_ID_def np_round_def rint_def Let_def)
  have 3: "dict_ID_slice ex_props_ID ex_mem_cat_lost = Inl KeyError"
    by (simp add: dict_ID_slice_def ex_list_ID_slice_lost)
  have keys: "ex_props_ID (31, 2, 0.5124) = None" "ex_props_ID (31, 2, 0.5124 + 0.001) = None"
    "ex_props_ID (31, 2, 0.5138) = None" "ex_props_ID (31, 2, 0.515) = None"
    "ex_props_ID (31, 2, 0.5138 - 0.001) = None"
    by (simp_all add: ex_props_ID_def)
  have rounds: "np_round (0.5124 + 0.001) 3 = 0.513" "np_round (0.5138 + 0.001) 3 = 0.515"
    "np_round (0.5138 - 0.001) 3 = 0.513" "np_round (0.5496 + 0.001) 3 = 0.551"
    "np_round (0.5496 - 0.001) 3 = 0.549"
    by (simp_all add: np_round_def rint_def Let_def)
  have 4: "resolve_ID ex_props_ID 31 2 0.5124 = Inr ''W00191''"
    using key_resolution_retries_then_fails[of ex_props_ID 31 2 "0.5124", THEN conjunct1]
    by (simp add: ex_props_ID_def np_round_def rint_def Let_def)
  have 5: "resolve_ID ex_props_ID 31 2 0.5138 = Inr ''W00191''"
    using key_resolution_retries_then_fails[of ex_props_ID 31 2 "0.5138", THEN conjunct1]
    by (simp add: ex_props_ID_def np_round_def rint_def Let_def)
  have 6: "resolve_ID ex_props_ID 31 2 0.5496 = Inl KeyError"
    using key_resolution_retries_then_fails[of ex_props_ID 31 2 "0.5496", THEN conjunct1]
    by (simp add: ex_props_ID_def np_round_def rint_def Let_def)
  from key_resolution_retries_then_fails[of ex_props_ID 0 0 0 ex_mem_cat_drift
      "[(''W00191'', (0, 2)), (''W00191'', (2, 3))]"] ex_list_ID_slice_drift
  have 7: "map (\<lambda>j. (resolve_row ex_props_ID (ex_mem_cat_drift ! j), Suc j))
         (filter (closes_run ex_mem_cat_drift) [0..<length ex_mem_cat_drift]) =
      [(Inr ''W00191'', 2), (Inr ''W00191'', 3)]"
    by simp
  show ?thesis
    by (intro conjI) (rule ex_list_ID_slice_dup 1 2 3 keys rounds 4 5 6 ex_list_ID_slice_drift 7)+
qed

section \<open>Where the scan cuts the ranges\<close>

lemma list_ID_slice_ends:
  "list_ID_slice d cat = Inr lst \<Longrightarrow>
   map (\<lambda>e. snd (snd e)) lst = map Suc (filter (closes_run cat) [0..<length cat])"
  unfolding list_ID_slice_def by (rule loop_ends)

lemma list_ID_slice_end_iff:
  assumes "list_ID_slice d cat = Inr lst" "j < length cat"
  shows "(\<exists>k<length lst. snd (snd (lst ! k)) = Suc j) = closes_run cat j"
proof -
  have "(\<exists>k<length lst. snd (snd (lst ! k)) = Suc j) =
        (\<exists>k<length (map (\<lambda>e. snd (snd e)) lst). map (\<lambda>e. snd (snd e)) lst ! k = Suc j)"
    by auto
  also have "\<dots> = (Suc j \<in> set (map (\<lambda>e. snd (snd e)) lst))"
    by (simp only: in_set_conv_nth)
  also have "\<dots> = (Suc j \<in> set (map Suc (filter (closes_run cat) [0..<length cat])))"
    by (simp only: list_ID_slice_ends[OF assms(1)])
  also have "\<dots> = closes_run cat j"
    using assms(2) by auto
  finally show ?thesis .
qed

lemma closes_run_dec:
  "closes_run (map (\<lambda>r. r\<lparr>mem_col1 := f r\<rparr>) cat) = closes_run cat"
proof
  fix j
  show "closes_run (map (\<lambda>r. r\<lparr>mem_col1 := f r\<rparr>) cat) j = closes_run cat j"
  proof (cases "j < length cat - 1")
    case True
    then have "j < length cat" "j + 1 < length cat" by simp_all
    then show ?thesis by (simp add: closes_run_def)
  next
    case False
    then show ?thesis by (simp add: closes_run_def)
  qed
qed

lemma ex_list_ID_slice_dec:
  "list_ID_slice ex_props_ID_dec ex_mem_cat_dec = Inr [(''W00577'', (0, 2))]"
  by (simp add: list_ID_slice_def list_ID_slice_loop.simps ex_mem_cat_dec_def
      ex_props_ID_dec_def resolve_ID_def getitem_def np_round_def rint_def Let_def)

lemma ex_list_ID_slice_dec_flat:
  "list_ID_slice ex_props_ID (map (\<lambda>r. r\<lparr>mem_col1 := - 1.25\<rparr>) ex_mem_cat_dec)
     = Inr [(''W00048'', (0, 2))]"
  by (simp add: list_ID_slice_def list_ID_slice_loop.simps ex_mem_cat_dec_def
      ex_props_ID_def resolve_ID_def getitem_def np_round_def rint_def Let_def)

text \<open>
  Claim C5. In the list of a completed scan, two consecutive member rows lie in the same
  range exactly when their columns 0 (parent RA) and 3 (parent redshift) are equal.
  Column 1 (declination) plays no part in where the ranges are cut: a catalog that differs
  in column 1 only, scanned against any identity map, gets the same ranges whenever its
  scan completes. (The key that resolves the ID of a run does hold column 1.)
\<close>

theorem run_boundary_ignores_declination:
  assumes "list_ID_slice d cat = Inr lst" and "Suc j < length cat"
  shows "((\<exists>k<length lst. fst (snd (lst ! k)) \<le> j \<and> Suc j < snd (snd (lst ! k))) =
          (mem_col0 (cat ! j) = mem_col0 (cat ! Suc j) \<and> mem_col3 (cat ! j) = mem_col3 (cat ! Suc j)))
       \<and> (list_ID_slice d' (map (\<lambda>r. r\<lparr>mem_col1 := f r\<rparr>) cat) = Inr lst' \<longrightarrow>
          map snd lst' = map snd lst)"
proof (intro conjI impI)
  have c: "contiguous 0 lst (length cat)"
    using assms(1) unfolding list_ID_slice_def by (rule loop_contiguous) auto
  have j: "j < length cat" using assms(2) by simp
  have cl: "closes_run cat j =
      (\<not> (mem_col0 (cat ! j) = mem_col0 (cat ! Suc j) \<and> mem_col3 (cat ! j) = mem_col3 (cat ! Suc j)))"
    using assms(2) by (auto simp: closes_run_def)
  have "(\<exists>k<length lst. fst (snd (lst ! k)) \<le> j \<and> Suc j < snd (snd (lst ! k))) = (\<not> closes_run cat j)"
  proof
    assume "\<exists>k<length lst. fst (snd (lst ! k)) \<le> j \<and> Suc j < snd (snd (lst ! k))"
    then obtain k where k: "k < length lst" "fst (snd (lst ! k)) \<le> j" "Suc j < snd (snd (lst ! k))"
      by blast
    show "\<not> closes_run cat j"
    proof
      assume "closes_run cat j"
      with list_ID_slice_end_iff[OF assms(1) j] obtain k' where
        k': "k' < length lst" "snd (snd (lst ! k')) = Suc j" by blast
      from contiguous_nth[OF c k'(1)] k'(2) have "fst (snd (lst ! k')) \<le> j" by simp
      with contiguous_unique[OF c k(1) k'(1), of j] k k' have "k = k'" by simp
      with k(3) k'(2) show False by simp
    qed
  next
    assume n: "\<not> closes_run cat j"
    from contiguous_cover[OF c, of j] j obtain k where
      k: "k < length lst" "fst (snd (lst ! k)) \<le> j" "j < snd (snd (lst ! k))" by auto
    have "snd (snd (lst ! k)) \<noteq> Suc j"
      using n list_ID_slice_end_iff[OF assms(1) j] k(1) by blast
    with k show "\<exists>k<length lst. fst (snd (lst ! k)) \<le> j \<and> Suc j < snd (snd (lst ! k))"
      by (intro exI[of _ k]) simp
  qed
  with cl show "(\<exists>k<length lst. fst (snd (lst ! k)) \<le> j \<and> Suc j < snd (snd (lst ! k))) =
          (mem_col0 (cat ! j) = mem_col0 (cat ! Suc j) \<and> mem_col3 (cat ! j) = mem_col3 (cat ! Suc j))"
    by simp
next
  assume a: "list_ID_slice d' (map (\<lambda>r. r\<lparr>mem_col1 := f r\<rparr>) cat) = Inr lst'"
  have c: "contiguous 0 lst (length cat)"
    using assms(1) unfolding list_ID_slice_def by (rule loop_contiguous) auto
  have c': "contiguous 0 lst' (length (map (\<lambda>r. r\<lparr>mem_col1 := f r\<rparr>) cat))"
    using a unfolding list_ID_slice_def by (rule loop_contiguous) auto
  have "map (\<lambda>e. snd (snd e)) lst' = map (\<lambda>e. snd (snd e)) lst"
    by (simp add: list_ID_slice_ends[OF a] list_ID_slice_ends[OF assms(1)] closes_run_dec)
  with c' c show "map snd lst' = map snd lst" by (rule contiguous_slices_eq)
qed

theorem run_boundary_ignores_declination_witness:
  "list_ID_slice ex_props_ID_dec ex_mem_cat_dec = Inr [(''W00577'', (0, 2))]
   \<and> Suc 0 < length ex_mem_cat_dec
   \<and> mem_col1 (ex_mem_cat_dec ! 0) = - 1.25 \<and> mem_col1 (ex_mem_cat_dec ! Suc 0) = 7
   \<and> mem_col0 (ex_mem_cat_dec ! 0) = mem_col0 (ex_mem_cat_dec ! Suc 0)
   \<and> mem_col3 (ex_mem_cat_dec ! 0) = mem_col3 (ex_mem_cat_dec ! Suc 0)
   \<and> (\<exists>k<length [(''W00577'', (0::nat, 2::nat))].
         fst (snd ([(''W00577'', (0::nat, 2::nat))] ! k)) \<le> 0
         \<and> Suc 0 < snd (snd ([(''W00577'', (0::nat, 2::nat))] ! k)))
   \<and> list_ID_slice ex_props_ID (map (\<lambda>r. r\<lparr>mem_col1 := - 1.25\<rparr>) ex_mem_cat_dec)
        = Inr [(''W00048'', (0, 2))]
   \<and> map snd [(''W00048'', (0::nat, 2::nat))] = map snd [(''W00577'', (0::nat, 2::nat))]"
proof -
  have len: "Suc 0 < length ex_mem_cat_dec" by (simp add: ex_mem_cat_dec_def)
  from run_boundary_ignores_declination[OF ex_list_ID_slice_dec len,
      of ex_props_ID "\<lambda>r. - 1.25" "[(''W00048'', (0, 2))]"]
  show ?thesis
    using ex_list_ID_slice_dec ex_list_ID_slice_dec_flat len
    by (simp add: ex_mem_cat_dec_def)
qed

section \<open>Colliding keys in the identity map\<close>

text \<open>
  Claim C6. When two rows of the cluster catalog give the same key (column 0, column 1,
  column 2 rounded to 3 decimals), the identity map holds, for that key, the ID of the
  later row, that is of the last row with that key: the entry of the earlier row is
  replaced. The construction is a total function: it raises nothing.
\<close>

theorem identity_map_last_write_wins:
  assumes "i < j" and "j < length HSC_cl_cat"
    and "(cl_col0 (HSC_cl_cat ! i), cl_col1 (HSC_cl_cat ! i), np_round (cl_col2 (HSC_cl_cat ! i)) 3)
       = (cl_col0 (HSC_cl_cat ! j), cl_col1 (HSC_cl_cat ! j), np_round (cl_col2 (HSC_cl_cat ! j)) 3)"
    and "\<forall>n. j < n \<and> n < length HSC_cl_cat \<longrightarrow>
           (cl_col0 (HSC_cl_cat ! n), cl_col1 (HSC_cl_cat ! n), np_round (cl_col2 (HSC_cl_cat ! n)) 3)
         \<noteq> (cl_col0 (HSC_cl_cat ! j), cl_col1 (HSC_cl_cat ! j), np_round (cl_col2 (HSC_cl_cat ! j)) 3)"
  shows "dict_props_ID HSC_cl_cat
           (cl_col0 (HSC_cl_cat ! i), cl_col1 (HSC_cl_cat ! i), np_round (cl_col2 (HSC_cl_cat ! i)) 3)
         = Some (cl_col6 (HSC_cl_cat ! j))"
proof -
  let ?key = "\<lambda>row. (cl_col0 row, cl_col1 row, np_round (cl_col2 row) 3)"
  let ?kvs = "map (\<lambda>row. (?key row, cl_col6 row)) HSC_cl_cat"
  have "j < length ?kvs" using assms(2) by simp
  moreover have "?kvs ! j = (?key (HSC_cl_cat ! j), cl_col6 (HSC_cl_cat ! j))"
    using assms(2) by simp
  moreover have "\<forall>n. j < n \<and> n < length ?kvs \<longrightarrow> fst (?kvs ! n) \<noteq> ?key (HSC_cl_cat ! j)"
    using assms(4) by simp
  ultimately have "dict ?kvs (?key (HSC_cl_cat ! j)) = Some (cl_col6 (HSC_cl_cat ! j))"
    unfolding dict_Some_iff by blast
  then show ?thesis
    by (simp only: dict_props_ID_def list_props_ID_map assms(3))
qed

theorem identity_map_last_write_wins_witness:
  "(0::nat) < 1 \<and> 1 < length ex_cl_cat_same_key
   \<and> np_round (cl_col2 (ex_cl_cat_same_key ! 0)) 3 = 0.3
   \<and> np_round (cl_col2 (ex_cl_cat_same_key ! 1)) 3 = 0.3
   \<and> cl_col6 (ex_cl_cat_same_key ! 0) = ''W00048''
   \<and> dict_props_ID ex_cl_cat_same_key (30.5, - 1.25, 0.3) = Some ''W00825''"
proof -
  have "(0::nat) < 1" and "1 < length ex_cl_cat_same_key"
    by (simp_all add: ex_cl_cat_same_key_def)
  moreover have "(cl_col0 (ex_cl_cat_same_key ! 0), cl_col1 (ex_cl_cat_same_key ! 0),
        np_round (cl_col2 (ex_cl_cat_same_key ! 0)) 3)
     = (cl_col0 (ex_cl_cat_same_key ! 1), cl_col1 (ex_cl_cat_same_key ! 1),
        np_round (cl_col2 (ex_cl_cat_same_key ! 1)) 3)"
    by (simp add: ex_cl_cat_same_key_def np_round_def rint_def Let_def)
  moreover have "\<forall>n. 1 < n \<and> n < length ex_cl_cat_same_key \<longrightarrow>
       (cl_col0 (ex_cl_cat_same_key ! n), cl_col1 (ex_cl_cat_same_key ! n),
        np_round (cl_col2 (ex_cl_cat_same_key ! n)) 3)
     \<noteq> (cl_col0 (ex_cl_cat_same_key ! 1), cl_col1 (ex_cl_cat_same_key ! 1),
        np_round (cl_col2 (ex_cl_cat_same_key ! 1)) 3)"
    by (simp add: ex_cl_cat_same_key_def)
  ultimately have "dict_props_ID ex_cl_cat_same_key
       (cl_col0 (ex_cl_cat_same_key ! 0), cl_col1 (ex_cl_cat_same_key ! 0),
        np_round (cl_col2 (ex_cl_cat_same_key ! 0)) 3)
     = Some (cl_col6 (ex_cl_cat_same_key ! 1))"
    by (rule identity_map_last_write_wins)
  then show ?thesis
    by (simp add: ex_cl_cat_same_key_def np_round_def rint_def Let_def)
qed

section \<open>Saving a member list\<close>

lemma save_mem_list_path:
  "''Miscentered_Clusters_blank/'' @ ID @ ''/'' @ ID @ ''_P='' @ str_prob_min @ ''to'' @ str_prob_max @ ''.csv''
   = ''Miscentered_Clusters_blank/'' @ ID @ ''/'' @ ID @ ''_P=0.1to1.csv''"
  by (simp add: str_prob_min_def str_prob_max_def)

lemma mem_list_Some:
  "idx ID = Some s \<Longrightarrow>
   mem_list prob_min prob_max idx cat ID =
     Inr (map (\<lambda>row. (mem_col4 row, mem_col5 row))
            (filter (\<lambda>row. prob_min < mem_col7 row \<and> mem_col7 row \<le> prob_max) (getslice cat s)))"
  by (simp add: mem_list_def getitem_def Let_def)

lemma mem_list_None: "idx ID = None \<Longrightarrow> mem_list prob_min prob_max idx cat ID = Inl KeyError"
  by (simp add: mem_list_def getitem_def)

lemma save_mem_list_Some:
  "idx ID = Some s \<Longrightarrow>
   save_mem_list idx cat ID fs =
     (Inr (), fs(''Miscentered_Clusters_blank/'' @ ID @ ''/'' @ ID @ ''_P=0.1to1.csv'' \<mapsto>
        \<lparr>art_header = ''ra, dec'', art_delimiter = '','',
         art_rows = map (\<lambda>row. (mem_col4 row, mem_col5 row))
            (filter (\<lambda>row. 0.1 < mem_col7 row \<and> mem_col7 row \<le> 1) (getslice cat s))\<rparr>))"
  unfolding save_mem_list_def Let_def save_mem_list_path
  by (simp add: mem_list_Some np_savetxt_def)

lemma save_mem_list_None:
  "idx ID = None \<Longrightarrow> save_mem_list idx cat ID fs = (Inl KeyError, fs)"
  unfolding save_mem_list_def Let_def by (simp add: mem_list_None)

text \<open>
  Claim C7. For an ID that the index does not hold, \<open>save_mem_list\<close> raises the KeyError
  of the lookup and leaves the file system as it was: nothing is written.
\<close>

theorem unknown_ID_raises_and_writes_nothing:
  assumes "dict_ID_slice' ID = None"
  shows "save_mem_list dict_ID_slice' full_member_cat ID fs = (Inl KeyError, fs)"
  using assms by (rule save_mem_list_None)

theorem unknown_ID_raises_and_writes_nothing_witness:
  "ex_index ''W16502'' = None
   \<and> save_mem_list ex_index ex_mem_cat ''W16502'' Map.empty = (Inl KeyError, Map.empty)"
proof -
  have h: "ex_index ''W16502'' = None" by (simp add: ex_index_def)
  from unknown_ID_raises_and_writes_nothing[of ex_index "''W16502''" ex_mem_cat Map.empty, OF h] h
  show ?thesis by simp
qed

text \<open>
  Claim C9. \<open>save_mem_list\<close> takes the ID and no bounds. For an ID of the index it writes,
  under the path that ends in \<open>_P=0.1to1.csv\<close>, the columns 4 and 5 of the rows of the
  slice whose column 7 is above 0.1 and at most 1; and whatever the ID, a path whose
  content the call changes ends in \<open>_P=0.1to1.csv\<close>.
\<close>

theorem save_mem_list_bounds_are_fixed:
  assumes "dict_ID_slice' ID = Some s"
  shows "save_mem_list dict_ID_slice' full_member_cat ID fs =
           (Inr (), fs(''Miscentered_Clusters_blank/'' @ ID @ ''/'' @ ID @ ''_P=0.1to1.csv'' \<mapsto>
              \<lparr>art_header = ''ra, dec'', art_delimiter = '','',
               art_rows = map (\<lambda>row. (mem_col4 row, mem_col5 row))
                 (filter (\<lambda>row. 0.1 < mem_col7 row \<and> mem_col7 row \<le> 1)
                    (getslice full_member_cat s))\<rparr>))
       \<and> (\<forall>ID' p. snd (save_mem_list dict_ID_slice' full_member_cat ID' fs) p \<noteq> fs p
             \<longrightarrow> suffix ''_P=0.1to1.csv'' p)"
proof (intro conjI allI impI)
  show "save_mem_list dict_ID_slice' full_member_cat ID fs =
           (Inr (), fs(''Miscentered_Clusters_blank/'' @ ID @ ''/'' @ ID @ ''_P=0.1to1.csv'' \<mapsto>
              \<lparr>art_header = ''ra, dec'', art_delimiter = '','',
               art_rows = map (\<lambda>row. (mem_col4 row, mem_col5 row))
                 (filter (\<lambda>row. 0.1 < mem_col7 row \<and> mem_col7 row \<le> 1)
                    (getslice full_member_cat s))\<rparr>))"
    using assms by (rule save_mem_list_Some)
next
  fix ID' p
  assume changed: "snd (save_mem_list dict_ID_slice' full_member_cat ID' fs) p \<noteq> fs p"
  show "suffix ''_P=0.1to1.csv'' p"
  proof (cases "dict_ID_slice' ID'")
    case None
    with changed show ?thesis by (simp add: save_mem_list_None)
  next
    case (Some s')
    with changed have "p = ''Miscentered_Clusters_blank/'' @ ID' @ ''/'' @ ID' @ ''_P=0.1to1.csv''"
      by (simp add: save_mem_list_Some split: if_splits)
    then have "p = (''Miscentered_Clusters_blank/'' @ ID' @ ''/'' @ ID') @ ''_P=0.1to1.csv''"
      by simp
    then show ?thesis by (rule suffixI)
  qed
qed

theorem save_mem_list_bounds_are_fixed_witness:
  "ex_index ''W00048'' = Some (0, 4)
   \<and> save_mem_list ex_index ex_mem_cat ''W00048'' Map.empty =
       (Inr (), [''Miscentered_Clusters_blank/W00048/W00048_P=0.1to1.csv'' \<mapsto>
          \<lparr>art_header = ''ra, dec'', art_delimiter = '','',
           art_rows = [(30.49, - 1.25), (30.5, - 1.27)]\<rparr>])"
proof -
  have h: "ex_index ''W00048'' = Some (0, 4)" by (simp add: ex_index_def)
  from save_mem_list_bounds_are_fixed[of ex_index "''W00048''" "(0, 4)" ex_mem_cat Map.empty, OF h] h
  show ?thesis
    by (simp add: getslice_def ex_mem_cat_def)
qed

text \<open>
  Claim C3. For an ID of the index and bounds \<open>prob_min\<close> and \<open>prob_max\<close>, the member
  list is, in the order of the rows of the catalog, the pair (column 4, column 5) of every
  row of the cluster's range whose column 7 is above \<open>prob_min\<close> and at most \<open>prob_max\<close>.
  When the probabilities of the range are 0.05, 0.1, 0.5 and 1.0 and the bounds are 0.1
  and 1.0, the list holds the third and the fourth row and no other, and these are the
  rows \<open>save_mem_list\<close> writes.
\<close>

theorem member_list_probability_filter:
  assumes "dict_ID_slice' ID = Some (lo, hi)"
  shows "mem_list prob_min prob_max dict_ID_slice' full_member_cat ID =
           Inr (map (\<lambda>i. (mem_col4 (full_member_cat ! i), mem_col5 (full_member_cat ! i)))
                  (filter (\<lambda>i. prob_min < mem_col7 (full_member_cat ! i)
                               \<and> mem_col7 (full_member_cat ! i) \<le> prob_max)
                     [lo..<min hi (length full_member_cat)]))
       \<and> (map mem_col7 (getslice full_member_cat (lo, hi)) = [0.05, 0.1, 0.5, 1.0] \<longrightarrow>
            (\<exists>r0 r1 r2 r3. getslice full_member_cat (lo, hi) = [r0, r1, r2, r3]
               \<and> mem_list 0.1 1.0 dict_ID_slice' full_member_cat ID =
                   Inr [(mem_col4 r2, mem_col5 r2), (mem_col4 r3, mem_col5 r3)]
               \<and> snd (save_mem_list dict_ID_slice' full_member_cat ID fs)
                     (''Miscentered_Clusters_blank/'' @ ID @ ''/'' @ ID @ ''_P=0.1to1.csv'') =
                   Some \<lparr>art_header = ''ra, dec'', art_delimiter = '','',
                         art_rows = [(mem_col4 r2, mem_col5 r2), (mem_col4 r3, mem_col5 r3)]\<rparr>))"
proof (intro conjI impI)
  show "mem_list prob_min prob_max dict_ID_slice' full_member_cat ID =
           Inr (map (\<lambda>i. (mem_col4 (full_member_cat ! i), mem_col5 (full_member_cat ! i)))
                  (filter (\<lambda>i. prob_min < mem_col7 (full_member_cat ! i)
                               \<and> mem_col7 (full_member_cat ! i) \<le> prob_max)
                     [lo..<min hi (length full_member_cat)]))"
    by (simp add: mem_list_Some[of dict_ID_slice' ID "(lo, hi)", OF assms] getslice_nth filter_map comp_def)
next
  assume p: "map mem_col7 (getslice full_member_cat (lo, hi)) = [0.05, 0.1, 0.5, 1.0]"
  then obtain r0 r1 r2 r3 where rows: "getslice full_member_cat (lo, hi) = [r0, r1, r2, r3]"
    and probs: "mem_col7 r0 = 0.05" "mem_col7 r1 = 0.1" "mem_col7 r2 = 0.5" "mem_col7 r3 = 1.0"
    by (auto simp: map_eq_Cons_conv)
  have m: "mem_list 0.1 1.0 dict_ID_slice' full_member_cat ID =
             Inr [(mem_col4 r2, mem_col5 r2), (mem_col4 r3, mem_col5 r3)]"
    by (simp add: mem_list_Some[of dict_ID_slice' ID "(lo, hi)", OF assms] rows probs)
  have "snd (save_mem_list dict_ID_slice' full_member_cat ID fs)
          (''Miscentered_Clusters_blank/'' @ ID @ ''/'' @ ID @ ''_P=0.1to1.csv'') =
        Some \<lparr>art_header = ''ra, dec'', art_delimiter = '','',
              art_rows = [(mem_col4 r2, mem_col5 r2), (mem_col4 r3, mem_col5 r3)]\<rparr>"
    by (simp add: save_mem_list_Some[of dict_ID_slice' ID "(lo, hi)", OF assms] rows probs)
  with rows m show "\<exists>r0 r1 r2 r3. getslice full_member_cat (lo, hi) = [r0, r1, r2, r3]
               \<and> mem_list 0.1 1.0 dict_ID_slice' full_member_cat ID =
                   Inr [(mem_col4 r2, mem_col5 r2), (mem_col4 r3, mem_col5 r3)]
               \<and> snd (save_mem_list dict_ID_slice' full_member_cat ID fs)
                     (''Miscentered_Clusters_blank/'' @ ID @ ''/'' @ ID @ ''_P=0.1to1.csv'') =
                   Some \<lparr>art_header = ''ra, dec'', art_delimiter = '','',
                         art_rows = [(mem_col4 r2, mem_col5 r2), (mem_col4 r3, mem_col5 r3)]\<rparr>"
    by blast
qed

theorem member_list_probability_filter_witness:
  "ex_index ''W00048'' = Some (0, 4)
   \<and> map mem_col7 (getslice ex_mem_cat (0, 4)) = [0.05, 0.1, 0.5, 1.0]
   \<and> mem_list 0.1 1.0 ex_index ex_mem_cat ''W00048'' = Inr [(30.49, - 1.25), (30.5, - 1.27)]
   \<and> mem_list 0.05 0.5 ex_index ex_mem_cat ''W00048'' = Inr [(30.52, - 1.26), (30.49, - 1.25)]"
proof -
  have h: "ex_index ''W00048'' = Some (0, 4)" by (simp add: ex_index_def)
  have len: "length ex_mem_cat = 6" by (simp add: ex_mem_cat_def)
  have upt: "[0..<4] = [0, 1, 2, 3::nat]" by (simp add: upt_rec)
  have "mem_list 0.1 1.0 ex_index ex_mem_cat ''W00048'' = Inr [(30.49, - 1.25), (30.5, - 1.27)]"
    using member_list_probability_filter[of ex_index "''W00048''" 0 4 "0.1" "1.0" ex_mem_cat, OF h]
    by (simp add: len upt) (simp add: ex_mem_cat_def)
  moreover have "mem_list 0.05 0.5 ex_index ex_mem_cat ''W00048'' = Inr [(30.52, - 1.26), (30.49, - 1.25)]"
    using member_list_probability_filter[of ex_index "''W00048''" 0 4 "0.05" "0.5" ex_mem_cat, OF h]
    by (simp add: len upt) (simp add: ex_mem_cat_def)
  moreover have "map mem_col7 (getslice ex_mem_cat (0, 4)) = [0.05, 0.1, 0.5, 1.0]"
    by (simp add: getslice_def ex_mem_cat_def)
  ultimately show ?thesis using h by simp
qed

section \<open>The number of entries of the index\<close>

lemma finite_dom_dict: "finite (dom (dict kvs))"
  by (simp add: dom_dict)

lemma ran_as_image: "ran d = (\<lambda>k. the (d k)) ` dom d"
  by (auto simp: ran_def dom_def image_iff) force

lemma inj_on_the_iff: "inj_on (\<lambda>k. the (d k)) (dom d) = inj_on d (dom d)"
  by (auto simp: inj_on_def dom_def)

lemma card_subset_ran:
  assumes "finite (dom d)" and "A \<subseteq> ran d"
  shows "card A \<le> card (dom d)
       \<and> ((card A = card (dom d)) = (inj_on d (dom d) \<and> ran d \<subseteq> A))"
proof -
  have fr: "finite (ran d)" using assms(1) by (simp add: ran_as_image)
  have le1: "card A \<le> card (ran d)" using assms(2) fr by (rule card_mono[rotated])
  have le2: "card (ran d) \<le> card (dom d)"
    unfolding ran_as_image using assms(1) by (rule card_image_le)
  have "(card A = card (dom d)) = (inj_on d (dom d) \<and> ran d \<subseteq> A)"
  proof
    assume eq: "card A = card (dom d)"
    with le1 le2 have a: "card A = card (ran d)" and b: "card (ran d) = card (dom d)" by simp_all
    from assms(2) fr a have "A = ran d" by (simp add: card_subset_eq)
    moreover from b assms(1) have "inj_on (\<lambda>k. the (d k)) (dom d)"
      unfolding ran_as_image by (rule eq_card_imp_inj_on[rotated])
    ultimately show "inj_on d (dom d) \<and> ran d \<subseteq> A" by (simp add: inj_on_the_iff)
  next
    assume r: "inj_on d (dom d) \<and> ran d \<subseteq> A"
    with assms(2) have "A = ran d" by blast
    moreover from r have "card (ran d) = card (dom d)"
      unfolding ran_as_image by (intro card_image) (simp add: inj_on_the_iff)
    ultimately show "card A = card (dom d)" by simp
  qed
  with le1 le2 show ?thesis by simp
qed

lemma dom_dict_props_ID:
  "dom (dict_props_ID cl) = (\<lambda>row. (cl_col0 row, cl_col1 row, np_round (cl_col2 row) 3)) ` set cl"
  by (simp add: dict_props_ID_def dom_dict list_props_ID_map image_image)

lemma ex_dict_props_ID: "dict_props_ID ex_cl_cat = ex_props_ID"
  by (simp add: dict_props_ID_def dict_def ex_cl_cat_def ex_props_ID_def np_round_def rint_def Let_def)

lemma ex_list_ID_slice_one:
  "list_ID_slice ex_props_ID ex_mem_cat_one = Inr [(''W00048'', (0, 4))]"
  by (simp add: list_ID_slice_def list_ID_slice_loop.simps ex_mem_cat_one_def ex_mem_cat_def
      ex_props_ID_def resolve_ID_def getitem_def np_round_def rint_def Let_def)

lemma ex_dict_ID_slice: "dict_ID_slice ex_props_ID ex_mem_cat = Inr ex_index"
  by (simp add: dict_ID_slice_def ex_list_ID_slice dict_def ex_index_def)

text \<open>
  Claim C4, as stated, fails: for the two clusters of the example and a member catalog
  that holds the members of the first one only, the index has one entry and the cluster
  catalog two distinct keys.
\<close>

theorem index_size_equals_key_count_counterexample:
  "dict_ID_slice (dict_props_ID ex_cl_cat) ex_mem_cat_one = Inr [''W00048'' \<mapsto> (0, 4)]
   \<and> card (dom [''W00048'' \<mapsto> (0::nat, 4::nat)]) = 1
   \<and> card (dom (dict_props_ID ex_cl_cat)) = 2"
  by (simp add: ex_dict_props_ID dict_ID_slice_def ex_list_ID_slice_one dict_def)
     (simp add: ex_props_ID_def)

text \<open>
  Claim C4, amended. The keys of the identity map are the distinct keys of the cluster
  catalog. When the construction of the index completes, the index has at most as many
  entries as there are runs in the member catalog and at most as many as there are
  distinct cluster keys; it has exactly as many entries as distinct cluster keys if and
  only if distinct keys hold distinct IDs and every ID of the identity map is the ID
  resolved for some run.
\<close>

theorem index_size_at_most_key_count:
  assumes "dict_ID_slice (dict_props_ID HSC_cl_cat) full_member_cat = Inr idx"
  shows "dom (dict_props_ID HSC_cl_cat) =
           (\<lambda>row. (cl_col0 row, cl_col1 row, np_round (cl_col2 row) 3)) ` set HSC_cl_cat
       \<and> card (dom idx) \<le> length (filter (closes_run full_member_cat) [0..<length full_member_cat])
       \<and> card (dom idx) \<le> card (dom (dict_props_ID HSC_cl_cat))
       \<and> ((card (dom idx) = card (dom (dict_props_ID HSC_cl_cat))) =
            (inj_on (dict_props_ID HSC_cl_cat) (dom (dict_props_ID HSC_cl_cat))
             \<and> ran (dict_props_ID HSC_cl_cat) \<subseteq> dom idx))"
proof -
  from assms obtain lst where
    lst: "list_ID_slice (dict_props_ID HSC_cl_cat) full_member_cat = Inr lst" and
    idx: "idx = dict lst"
    by (auto simp: dict_ID_slice_def split: sum.splits)
  from lst have loop: "list_ID_slice_loop (dict_props_ID HSC_cl_cat) full_member_cat 0 0 [] = Inr lst"
    by (simp add: list_ID_slice_def)
  have dom: "dom idx = fst ` set lst" by (simp add: idx dom_dict)
  have "length lst = length (filter (closes_run full_member_cat) [0..<length full_member_cat])"
    using arg_cong[OF loop_ends[OF loop], of length] by simp
  moreover have "card (fst ` set lst) \<le> length lst"
    by (rule order_trans[OF card_image_le card_length]) simp
  ultimately have runs: "card (dom idx) \<le> length (filter (closes_run full_member_cat) [0..<length full_member_cat])"
    by (simp add: dom)
  have sub: "dom idx \<subseteq> ran (dict_props_ID HSC_cl_cat)"
    unfolding dom by (rule loop_ids_ran[OF loop])
  have fin: "finite (dom (dict_props_ID HSC_cl_cat))"
    by (simp add: dict_props_ID_def finite_dom_dict)
  from card_subset_ran[OF fin sub] runs dom_dict_props_ID[of HSC_cl_cat] show ?thesis by simp
qed

theorem index_size_at_most_key_count_witness:
  "dict_ID_slice (dict_props_ID ex_cl_cat) ex_mem_cat = Inr ex_index
   \<and> card (dom ex_index) = 2
   \<and> card (dom (dict_props_ID ex_cl_cat)) = 2
   \<and> inj_on (dict_props_ID ex_cl_cat) (dom (dict_props_ID ex_cl_cat))
   \<and> ran (dict_props_ID ex_cl_cat) \<subseteq> dom ex_index"
proof -
  have h: "dict_ID_slice (dict_props_ID ex_cl_cat) ex_mem_cat = Inr ex_index"
    by (simp add: ex_dict_props_ID ex_dict_ID_slice)
  have c: "card (dom ex_index) = 2" "card (dom (dict_props_ID ex_cl_cat)) = 2"
    by (simp_all add: ex_dict_props_ID ex_index_def ex_props_ID_def)
  note eq = index_size_at_most_key_count[OF h, THEN conjunct2, THEN conjunct2, THEN conjunct2]
  from eq c have "inj_on (dict_props_ID ex_cl_cat) (dom (dict_props_ID ex_cl_cat))
      \<and> ran (dict_props_ID ex_cl_cat) \<subseteq> dom ex_index" by simp
  with h c show ?thesis by simp
qed

section \<open>The line-of-sight distance\<close>

lemma rint_Ints: "rint x \<in> \<int>"
  by (simp add: rint_def Let_def)

lemma rint_near: "\<bar>rint x - x\<bar> \<le> 1 / 2"
proof -
  have "of_int \<lfloor>x\<rfloor> \<le> x" and "x < of_int \<lfloor>x\<rfloor> + 1" by linarith+
  then show ?thesis by (auto simp: rint_def Let_def)
qed

lemma rint_tie_even:
  assumes "\<bar>rint x - x\<bar> = 1 / 2"
  shows "\<exists>k::int. rint x = of_int (2 * k)"
proof -
  have fl: "of_int \<lfloor>x\<rfloor> \<le> x" "x < of_int \<lfloor>x\<rfloor> + 1" by linarith+
  have d: "x - of_int \<lfloor>x\<rfloor> = 1 / 2"
  proof (rule ccontr)
    assume "x - of_int \<lfloor>x\<rfloor> \<noteq> 1 / 2"
    then consider "x - of_int \<lfloor>x\<rfloor> < 1 / 2" | "1 / 2 < x - of_int \<lfloor>x\<rfloor>" by linarith
    then have "\<bar>rint x - x\<bar> < 1 / 2"
    proof cases
      case 1
      with fl show ?thesis by (simp add: rint_def Let_def)
    next
      case 2
      with fl show ?thesis by (simp add: rint_def Let_def)
    qed
    with assms show False by simp
  qed
  show ?thesis
  proof (cases "even \<lfloor>x\<rfloor>")
    case True
    then obtain k where "\<lfloor>x\<rfloor> = 2 * k" by (auto elim: evenE)
    with d True have "rint x = of_int (2 * k)" by (simp add: rint_def Let_def)
    then show ?thesis by blast
  next
    case False
    then obtain k where "\<lfloor>x\<rfloor> = 2 * k + 1" by (auto elim: oddE)
    with d False have "rint x = of_int (2 * (k + 1))" by (simp add: rint_def Let_def)
    then show ?thesis by blast
  qed
qed

lemma np_round_0: "np_round x 0 = rint x"
  by (simp add: np_round_def)

lemma LOS_distance_diff_Some:
  "fadd fa 1 z1 \<noteq> 0 \<Longrightarrow>
   LOS_distance_diff fa cosmo z1 z2 = Some (rint (computed_difference fa cosmo z1 z2))"
  by (simp add: LOS_distance_diff_def computed_difference_def Let_def np_round_0)

text \<open>
  Claim C8, as stated, fails: the function rounds the difference to an integer. With a
  comoving distance of 10 per unit of redshift, \<open>z1 = 0\<close> and \<open>z2 = 0.125\<close>, where no
  operation has a rounding error, it returns 1 and the quotient of the claim is 1.25;
  with 4000 Mpc per unit of redshift, \<open>z1 = 0.30\<close> and \<open>z2 = 0.32\<close>, it returns 62 and
  the quotient of the claim is 800 / 13.
\<close>

theorem LOS_distance_diff_unrounded_counterexample:
  "LOS_distance_diff exact_arith ex_cosmo_dyadic 0 0.125 = Some 1
   \<and> (comoving_distance ex_cosmo_dyadic 0.125 - comoving_distance ex_cosmo_dyadic 0) / (1 + 0)
       = 1.25
   \<and> LOS_distance_diff exact_arith ex_cosmo 0.30 0.32 = Some 62
   \<and> (comoving_distance ex_cosmo 0.32 - comoving_distance ex_cosmo 0.30) / (1 + 0.30) = 800 / 13"
  by (simp add: LOS_distance_diff_def exact_arith_def ex_cosmo_dyadic_def ex_cosmo_def
      np_round_def rint_def Let_def)

text \<open>
  Claim C8, amended. For every cosmology and all redshifts \<open>z1\<close> and \<open>z2\<close> whose divisor
  \<open>1 + z1\<close>, as the float addition gives it, is not zero, the function returns the
  difference \<open>comoving_distance(z2) / (1 + z1) - comoving_distance(z1) / (1 + z1)\<close>, as
  the float operations give it, rounded to the nearest integer, a tie to the even one:
  an integer, at most one half away from that difference, and even when exactly one half
  away. Where the addition, the two divisions and the subtraction have no rounding error,
  this is \<open>(comoving_distance(z2) - comoving_distance(z1)) / (1 + z1)\<close> rounded to the
  nearest integer. With a zero divisor the function returns no finite number.
\<close>

theorem LOS_distance_diff_is_rounded_difference:
  "(fadd fa 1 z1 \<noteq> 0 \<longrightarrow>
      LOS_distance_diff fa cosmo z1 z2 = Some (rint (computed_difference fa cosmo z1 z2))
      \<and> rint (computed_difference fa cosmo z1 z2) \<in> \<int>
      \<and> \<bar>rint (computed_difference fa cosmo z1 z2) - computed_difference fa cosmo z1 z2\<bar> \<le> 1 / 2
      \<and> (\<bar>rint (computed_difference fa cosmo z1 z2) - computed_difference fa cosmo z1 z2\<bar> = 1 / 2
            \<longrightarrow> (\<exists>k::int. rint (computed_difference fa cosmo z1 z2) = of_int (2 * k))))
   \<and> (1 + z1 \<noteq> 0 \<longrightarrow>
        LOS_distance_diff exact_arith cosmo z1 z2 =
          Some (rint ((comoving_distance cosmo z2 - comoving_distance cosmo z1) / (1 + z1))))
   \<and> (fadd fa 1 z1 = 0 \<longrightarrow> LOS_distance_diff fa cosmo z1 z2 = None)"
proof (intro conjI impI)
  assume "fadd fa 1 z1 \<noteq> 0"
  then show "LOS_distance_diff fa cosmo z1 z2 = Some (rint (computed_difference fa cosmo z1 z2))"
    by (rule LOS_distance_diff_Some)
next
  show "rint (computed_difference fa cosmo z1 z2) \<in> \<int>" by (rule rint_Ints)
next
  show "\<bar>rint (computed_difference fa cosmo z1 z2) - computed_difference fa cosmo z1 z2\<bar> \<le> 1 / 2"
    by (rule rint_near)
next
  assume "\<bar>rint (computed_difference fa cosmo z1 z2) - computed_difference fa cosmo z1 z2\<bar> = 1 / 2"
  then show "\<exists>k::int. rint (computed_difference fa cosmo z1 z2) = of_int (2 * k)"
    by (rule rint_tie_even)
next
  assume "1 + z1 \<noteq> 0"
  then have "fadd exact_arith 1 z1 \<noteq> 0" by (simp add: exact_arith_def)
  then have "LOS_distance_diff exact_arith cosmo z1 z2 =
      Some (rint (computed_difference exact_arith cosmo z1 z2))"
    by (rule LOS_distance_diff_Some)
  moreover have "computed_difference exact_arith cosmo z1 z2 =
      (comoving_distance cosmo z2 - comoving_distance cosmo z1) / (1 + z1)"
    by (simp add: computed_difference_def exact_arith_def diff_divide_distrib)
  ultimately show "LOS_distance_diff exact_arith cosmo z1 z2 =
      Some (rint ((comoving_distance cosmo z2 - comoving_distance cosmo z1) / (1 + z1)))"
    by simp
next
  assume "fadd fa 1 z1 = 0"
  then show "LOS_distance_diff fa cosmo z1 z2 = None" by (simp add: LOS_distance_diff_def)
qed

theorem LOS_distance_diff_is_rounded_difference_witness:
  "fadd exact_arith 1 0 \<noteq> 0
   \<and> computed_difference exact_arith ex_cosmo_dyadic 0 0.25 = 2.5
   \<and> LOS_distance_diff exact_arith ex_cosmo_dyadic 0 0.25 = Some 2
   \<and> computed_difference exact_arith ex_cosmo_dyadic 0 0.75 = 7.5
   \<and> LOS_distance_diff exact_arith ex_cosmo_dyadic 0 0.75 = Some 8
   \<and> LOS_distance_diff exact_arith ex_cosmo_dyadic 0 0.125 = Some 1
   \<and> fadd exact_arith 1 (- 1) = 0
   \<and> LOS_distance_diff exact_arith ex_cosmo_dyadic (- 1) 0.25 = None"
proof -
  have h: "fadd exact_arith 1 0 \<noteq> 0" and z: "fadd exact_arith 1 (- 1) = 0"
    by (simp_all add: exact_arith_def)
  have d: "computed_difference exact_arith ex_cosmo_dyadic 0 0.25 = 2.5"
    "computed_difference exact_arith ex_cosmo_dyadic 0 0.75 = 7.5"
    "computed_difference exact_arith ex_cosmo_dyadic 0 0.125 = 1.25"
    by (simp_all add: computed_difference_def exact_arith_def ex_cosmo_dyadic_def)
  have r: "rint 2.5 = 2" "rint 7.5 = 8" "rint 1.25 = 1"
    by (simp_all add: rint_def Let_def)
  have a: "LOS_distance_diff exact_arith ex_cosmo_dyadic 0 0.25 = Some 2"
    using LOS_distance_diff_is_rounded_difference[of exact_arith 0 ex_cosmo_dyadic "0.25",
        THEN conjunct1, THEN mp, OF h, THEN conjunct1]
    by (simp only: d r)
  have b: "LOS_distance_diff exact_arith ex_cosmo_dyadic 0 0.75 = Some 8"
    using LOS_distance_diff_is_rounded_difference[of exact_arith 0 ex_cosmo_dyadic "0.75",
        THEN conjunct1, THEN mp, OF h, THEN conjunct1]
    by (simp only: d r)
  have c: "LOS_distance_diff exact_arith ex_cosmo_dyadic 0 0.125 = Some 1"
    using LOS_distance_diff_is_rounded_difference[of exact_arith 0 ex_cosmo_dyadic "0.125",
        THEN conjunct1, THEN mp, OF h, THEN conjunct1]
    by (simp only: d r)
  from LOS_distance_diff_is_rounded_difference[of exact_arith "- 1" ex_cosmo_dyadic "0.25"] z
  have e: "LOS_distance_diff exact_arith ex_cosmo_dyadic (- 1) 0.25 = None"
    by simp
  from h z d a b c e show ?thesis by simp
qed

section \<open>Two runs with one ID\<close>

text \<open>
  Claim C10. \<open>dict(list_ID_slice)\<close> keeps, for an ID that two runs resolve to, the range
  of the later run, that is of the last run with that ID. The range of the earlier run
  is a different one, and none of its rows lies in a range of the finished index: the
  ranges of the index need not cover the member catalog.
\<close>

theorem duplicate_IDs_keep_the_last_run:
  assumes "list_ID_slice d cat = Inr lst"
    and "i < j" and "j < length lst"
    and "fst (lst ! i) = fst (lst ! j)"
    and "\<forall>n. j < n \<and> n < length lst \<longrightarrow> fst (lst ! n) \<noteq> fst (lst ! j)"
  shows "\<exists>idx. dict_ID_slice d cat = Inr idx
           \<and> idx (fst (lst ! j)) = Some (snd (lst ! j))
           \<and> snd (lst ! i) \<noteq> snd (lst ! j)
           \<and> (\<forall>r. fst (snd (lst ! i)) \<le> r \<and> r < snd (snd (lst ! i)) \<longrightarrow>
                 r < length cat \<and> (\<forall>ID s. idx ID = Some s \<longrightarrow> \<not> (fst s \<le> r \<and> r < snd s)))"
proof -
  have c: "contiguous 0 lst (length cat)"
    using assms(1) unfolding list_ID_slice_def by (rule loop_contiguous) auto
  have i: "i < length lst" using assms(2,3) by simp
  have idx: "dict_ID_slice d cat = Inr (dict lst)"
    by (simp add: dict_ID_slice_def assms(1))
  have "lst ! j = (fst (lst ! j), snd (lst ! j))" by simp
  with assms(3,5) have last: "dict lst (fst (lst ! j)) = Some (snd (lst ! j))"
    unfolding dict_Some_iff by blast
  have "snd (snd (lst ! i)) \<le> fst (snd (lst ! j))"
    using c assms(2,3) by (rule contiguous_ordered)
  moreover have "fst (snd (lst ! j)) < snd (snd (lst ! j))"
    using contiguous_nth[OF c assms(3)] by simp
  ultimately have diff: "snd (lst ! i) \<noteq> snd (lst ! j)" by auto
  have lost: "\<forall>r. fst (snd (lst ! i)) \<le> r \<and> r < snd (snd (lst ! i)) \<longrightarrow>
      r < length cat \<and> (\<forall>ID s. dict lst ID = Some s \<longrightarrow> \<not> (fst s \<le> r \<and> r < snd s))"
  proof (intro allI impI conjI notI)
    fix r assume r: "fst (snd (lst ! i)) \<le> r \<and> r < snd (snd (lst ! i))"
    with contiguous_nth[OF c i] show "r < length cat" by simp
  next
    fix r ID s
    assume r: "fst (snd (lst ! i)) \<le> r \<and> r < snd (snd (lst ! i))"
      and s: "dict lst ID = Some s" and cov: "fst s \<le> r \<and> r < snd s"
    from s obtain m where m: "m < length lst" "lst ! m = (ID, s)"
      "\<forall>n. m < n \<and> n < length lst \<longrightarrow> fst (lst ! n) \<noteq> ID"
      unfolding dict_Some_iff by blast
    from cov m(2) have "fst (snd (lst ! m)) \<le> r" "r < snd (snd (lst ! m))" by simp_all
    with r have "m = i" using contiguous_unique[OF c m(1) i, of r] by simp
    with m(2) assms(4) have "fst (lst ! j) = ID" by simp
    moreover from m(3) \<open>m = i\<close> assms(2,3) have "fst (lst ! j) \<noteq> ID" by simp
    ultimately show False by simp
  qed
  from idx last diff lost show ?thesis by blast
qed

theorem duplicate_IDs_keep_the_last_run_witness:
  "list_ID_slice ex_props_ID ex_mem_cat_dup =
     Inr [(''W00048'', (0, 4)), (''W00191'', (4, 6)), (''W00191'', (6, 7))]
   \<and> dict_ID_slice ex_props_ID ex_mem_cat_dup =
       Inr [''W00048'' \<mapsto> (0, 4), ''W00191'' \<mapsto> (6, 7)]
   \<and> length ex_mem_cat_dup = 7
   \<and> [''W00048'' \<mapsto> (0::nat, 4::nat), ''W00191'' \<mapsto> (6, 7)] ''W00191'' = Some (6, 7)
   \<and> \<not> (\<exists>ID s. [''W00048'' \<mapsto> (0::nat, 4::nat), ''W00191'' \<mapsto> (6, 7)] ID = Some s
            \<and> fst s \<le> 4 \<and> 4 < snd s)"
proof -
  let ?lst = "[(''W00048'', (0::nat, 4::nat)), (''W00191'', (4, 6)), (''W00191'', (6, 7))]"
  have d: "dict_ID_slice ex_props_ID ex_mem_cat_dup =
       Inr [''W00048'' \<mapsto> (0, 4), ''W00191'' \<mapsto> (6, 7)]"
    by (simp add: dict_ID_slice_def ex_list_ID_slice_dup dict_def)
  have "(1::nat) < 2" and "2 < length ?lst" and "fst (?lst ! 1) = fst (?lst ! 2)"
    and "\<forall>n. 2 < n \<and> n < length ?lst \<longrightarrow> fst (?lst ! n) \<noteq> fst (?lst ! 2)"
    by simp_all
  from duplicate_IDs_keep_the_last_run[OF ex_list_ID_slice_dup this]
  obtain idx where idx: "dict_ID_slice ex_props_ID ex_mem_cat_dup = Inr idx"
    and last: "idx (fst (?lst ! 2)) = Some (snd (?lst ! 2))"
    and lost: "\<forall>r. fst (snd (?lst ! 1)) \<le> r \<and> r < snd (snd (?lst ! 1)) \<longrightarrow>
         r < length ex_mem_cat_dup \<and> (\<forall>ID s. idx ID = Some s \<longrightarrow> \<not> (fst s \<le> r \<and> r < snd s))"
    by blast
  from idx d have eq: "idx = [''W00048'' \<mapsto> (0, 4), ''W00191'' \<mapsto> (6, 7)]" by simp
  from lost have "fst (snd (?lst ! 1)) \<le> 4 \<and> 4 < snd (snd (?lst ! 1)) \<longrightarrow>
         4 < length ex_mem_cat_dup \<and> (\<forall>ID s. idx ID = Some s \<longrightarrow> \<not> (fst s \<le> 4 \<and> 4 < snd s))"
    by (rule spec)
  then have "\<not> (\<exists>ID s. idx ID = Some s \<and> fst s \<le> 4 \<and> 4 < snd s)" by simp
  with last d show ?thesis
    unfolding eq using ex_list_ID_slice_dup
    by (simp add: ex_mem_cat_dup_def ex_mem_cat_def)
qed

end
